theory Spec2Isabelle
  imports Main "HOL-Library.AList" "HOL-Library.Sublist"
begin

section \<open>JSON documents and Python's view of them\<close>

text \<open>
  The store holds JSON sub-trees and the scripts handle them as Python values:
  \<open>None\<close>, \<open>bool\<close>, \<open>int\<close>, \<open>str\<close>, \<open>list\<close> and \<open>dict\<close>. A dict keeps its
  keys in insertion order, so it is an association list: assignment to a present key
  replaces the value where it stands, assignment to a new key appends
  (\<open>AList.update\<close>), \<open>del\<close> removes the key (\<open>AList.delete\<close>). The numbers the
  scripts store (ids, counts) are integers.
\<close>

datatype json =
    JNull
  | JBool bool
  | JNum int
  | JStr string
  | JList "json list"
  | JObj "(string \<times> json) list"

datatype error = TypeError | AttributeError | KeyError | EOFError | SystemExit

text \<open>Python truthiness, as used by \<open>x or {}\<close> and \<open>if not x\<close>.\<close>

fun truthy :: "json \<Rightarrow> bool" where
  "truthy JNull = False"
| "truthy (JBool b) = b"
| "truthy (JNum n) = (n \<noteq> 0)"
| "truthy (JStr s) = (s \<noteq> [])"
| "truthy (JList xs) = (xs \<noteq> [])"
| "truthy (JObj kvs) = (kvs \<noteq> [])"

definition or_empty :: "json \<Rightarrow> json" where
  "or_empty j = (if truthy j then j else JObj [])"

fun is_list :: "json \<Rightarrow> bool" where
  "is_list (JList xs) = True"
| "is_list _ = False"

fun is_dict :: "json \<Rightarrow> bool" where
  "is_dict (JObj kvs) = True"
| "is_dict _ = False"

text \<open>\<open>x in s\<close> for two strings is the substring test.\<close>

fun is_substr :: "string \<Rightarrow> string \<Rightarrow> bool" where
  "is_substr x [] = (x = [])"
| "is_substr x (c # cs) = (prefix x (c # cs) \<or> is_substr x cs)"

text \<open>
  \<open>key in container\<close> for a string key: membership by equality in a list (a string
  equals only an equal string), the substring test in a string, the key test in a
  dict; the other values are not iterable.
\<close>

fun py_in :: "string \<Rightarrow> json \<Rightarrow> error + bool" where
  "py_in k (JList xs) = Inr (JStr k \<in> set xs)"
| "py_in k (JStr s) = Inr (is_substr k s)"
| "py_in k (JObj kvs) = Inr (k \<in> fst ` set kvs)"
| "py_in k _ = Inl TypeError"

text \<open>\<open>d.get(key, default)\<close>: only a dict has the method.\<close>

fun py_get :: "json \<Rightarrow> string \<Rightarrow> json \<Rightarrow> error + json" where
  "py_get (JObj kvs) k d = Inr (case map_of kvs k of None \<Rightarrow> d | Some v \<Rightarrow> v)"
| "py_get _ k d = Inl AttributeError"

text \<open>\<open>d[key]\<close> for a string key: only a dict can be subscripted by a string.\<close>

fun py_index :: "json \<Rightarrow> string \<Rightarrow> error + json" where
  "py_index (JObj kvs) k = (case map_of kvs k of None \<Rightarrow> Inl KeyError | Some v \<Rightarrow> Inr v)"
| "py_index _ k = Inl TypeError"

text \<open>\<open>xs.append(x)\<close>: only a list has the method.\<close>

fun py_append :: "json \<Rightarrow> json \<Rightarrow> error + json" where
  "py_append (JList xs) x = Inr (JList (xs @ [x]))"
| "py_append _ x = Inl AttributeError"

section \<open>The tree-structured store\<close>

text \<open>
  Decimal rendering of a list index, as the f-string \<open>f'students/{i}'\<close> produces it, and
  its inverse on path segments.
\<close>

definition digit_char :: "nat \<Rightarrow> char" where
  "digit_char d = char_of (48 + d)"

function dec :: "nat \<Rightarrow> string" where
  "dec n = (if n < 10 then [digit_char n] else dec (n div 10) @ [digit_char (n mod 10)])"
  by pat_completeness auto
termination
  by (relation "measure id") auto

declare dec.simps [simp del]

definition digit_val :: "char \<Rightarrow> nat option" where
  "digit_val c = (let n = (of_char c :: nat) in if 48 \<le> n \<and> n \<le> 57 then Some (n - 48) else None)"

fun undec_acc :: "nat \<Rightarrow> string \<Rightarrow> nat option" where
  "undec_acc a [] = Some a"
| "undec_acc a (c # cs) = (case digit_val c of None \<Rightarrow> None | Some d \<Rightarrow> undec_acc (10 * a + d) cs)"

definition undec :: "string \<Rightarrow> nat option" where
  "undec s = (if s = [] then None else undec_acc 0 s)"

text \<open>The position a path segment addresses in a list of \<open>n\<close> elements, if any.\<close>

definition list_index :: "string \<Rightarrow> nat \<Rightarrow> nat option" where
  "list_index k n =
     (case undec k of
        None \<Rightarrow> None
      | Some i \<Rightarrow> if i < n \<and> dec i = k then Some i else None)"

definition list_as_obj :: "json list \<Rightarrow> (string \<times> json) list" where
  "list_as_obj xs = zip (map dec [0..<length xs]) xs"

text \<open>
  Modelled from the spec: the remote store itself is not part of the repository; the
  scripts reach it only through HTTP. Following sections 4.1 and 6 it is a JSON tree
  addressed by slash-separated paths: reading an absent path gives null, writing
  replaces the whole sub-tree at the path (creating the path where needed), writing
  null removes an object's child. A path is the list of its segments; identifiers put
  into a path are single segments.
\<close>

fun child :: "json \<Rightarrow> string \<Rightarrow> json" where
  "child (JObj kvs) k = (case map_of kvs k of None \<Rightarrow> JNull | Some v \<Rightarrow> v)"
| "child (JList xs) k = (case list_index k (length xs) of None \<Rightarrow> JNull | Some i \<Rightarrow> xs ! i)"
| "child _ k = JNull"

definition obj_put :: "(string \<times> json) list \<Rightarrow> string \<Rightarrow> json \<Rightarrow> json" where
  "obj_put kvs k v = JObj (if v = JNull then AList.delete k kvs else AList.update k v kvs)"

fun set_child :: "json \<Rightarrow> string \<Rightarrow> json \<Rightarrow> json" where
  "set_child (JObj kvs) k v = obj_put kvs k v"
| "set_child (JList xs) k v =
     (case list_index k (length xs) of
        Some i \<Rightarrow> JList (xs[i := v])
      | None \<Rightarrow> obj_put (list_as_obj xs) k v)"
| "set_child _ k v = obj_put [] k v"

primrec jget :: "json \<Rightarrow> string list \<Rightarrow> json" where
  "jget j [] = j"
| "jget j (k # p) = jget (child j k) p"

primrec jput :: "json \<Rightarrow> string list \<Rightarrow> json \<Rightarrow> json" where
  "jput j [] v = v"
| "jput j (k # p) v = set_child j k (jput (child j k) p v)"

section \<open>The store client of db\_manager.py\<close>

datatype http_method = GET | PUT | POST | DELETE

datatype outcome = Ok | HttpError | ConnectionError

text \<open>
  The world the scripts act on: the store's tree; the files beside the script, each
  holding the JSON document that \<open>json.dump\<close> wrote and \<open>json.load\<close> reads back; the
  wall clock, where \<open>isoformat w n\<close> and \<open>strftime w n\<close> are what
  \<open>datetime.now().isoformat()\<close> and \<open>datetime.now().strftime("%Y%m%d_%H%M%S")\<close>
  return at the \<open>n\<close>-th reading; the keys the server hands out for POST requests;
  the fate of the \<open>n\<close>-th request on the wire; and the log of the requests sent so
  far, oldest first.
\<close>

record world =
  root :: json
  files :: "(string \<times> json) list"
  isoformat :: "nat \<Rightarrow> string"
  strftime :: "nat \<Rightarrow> string"
  tick :: nat
  keys :: "nat \<Rightarrow> string"
  next_key :: nat
  transport :: "nat \<Rightarrow> outcome"
  requests :: "(http_method \<times> string list \<times> json) list"

definition now_isoformat :: "world \<Rightarrow> string \<times> world" where
  "now_isoformat w = (isoformat w (tick w), w\<lparr>tick := tick w + 1\<rparr>)"

definition now_strftime :: "world \<Rightarrow> string \<times> world" where
  "now_strftime w = (strftime w (tick w), w\<lparr>tick := tick w + 1\<rparr>)"

text \<open>Sequencing of steps that may raise: the first error ends the run.\<close>

definition and_then :: "error + 'a \<Rightarrow> ('a \<Rightarrow> error + 'b) \<Rightarrow> error + 'b" where
  "and_then r f = (case r of Inl e \<Rightarrow> Inl e | Inr x \<Rightarrow> f x)"

text \<open>
  What the server does with a request and what it answers: GET returns the sub-tree,
  PUT replaces it and echoes the value, POST stores the value under a key of the
  server's choice and answers \<open>{"name": key}\<close>, DELETE removes the sub-tree.
\<close>

definition serve :: "http_method \<Rightarrow> string list \<Rightarrow> json \<Rightarrow> world \<Rightarrow> json \<times> world" where
  "serve m path data w =
     (case m of
        GET \<Rightarrow> (jget (root w) path, w)
      | PUT \<Rightarrow> (data, w\<lparr>root := jput (root w) path data\<rparr>)
      | POST \<Rightarrow>
          (let k = keys w (next_key w) in
           (JObj [(''name'', JStr k)],
            w\<lparr>root := jput (root w) (path @ [k]) data, next_key := next_key w + 1\<rparr>))
      | DELETE \<Rightarrow> (JNull, w\<lparr>root := jput (root w) path JNull\<rparr>))"

definition log_request :: "http_method \<Rightarrow> string list \<Rightarrow> json \<Rightarrow> world \<Rightarrow> world" where
  "log_request m path data w = w\<lparr>requests := requests w @ [(m, path, data)]\<rparr>"

text \<open>
  \<open>_make_request\<close>: one round trip that returns the decoded response body. A request
  that fails on the wire or comes back with an error status is caught as
  \<open>RequestException\<close> and ends the process with \<open>sys.exit(1)\<close>.
\<close>

definition make_request :: "http_method \<Rightarrow> string list \<Rightarrow> json \<Rightarrow> world \<Rightarrow> error + json \<times> world" where
  "make_request m path data w =
     (case transport w (length (requests w)) of
        Ok \<Rightarrow> Inr (serve m path data (log_request m path data w))
      | HttpError \<Rightarrow> Inl SystemExit
      | ConnectionError \<Rightarrow> Inl SystemExit)"

section \<open>Backup and restore\<close>

text \<open>
  \<open>backup_database\<close>: read the root and dump it to the named file (a name made from
  the clock when none is given). Both functions join the file name to the script's
  directory in the same way, so a file is known here by its name.
\<close>

definition backup_database :: "string option \<Rightarrow> world \<Rightarrow> error + string \<times> world" where
  "backup_database filename w =
     and_then (make_request GET [] JNull w) (\<lambda>(data, w1).
       let (filename, w2) =
             (case filename of
                Some f \<Rightarrow> if f \<noteq> [] then (f, w1)
                          else (let (timestamp, w2) = now_strftime w1
                                in (''backup_'' @ timestamp @ ''.json'', w2))
              | None \<Rightarrow> (let (timestamp, w2) = now_strftime w1
                          in (''backup_'' @ timestamp @ ''.json'', w2)))
       in Inr (filename, w2\<lparr>files := AList.update filename data (files w2)\<rparr>))"

text \<open>
  \<open>restore_database\<close>: a missing file ends the process; without \<open>confirm\<close> the
  operator is asked and anything but \<open>yes\<close> (in any letter case) cancels; otherwise the
  file's document is written at the root. \<open>lower\<close> is Python's \<open>str.lower\<close>;
  \<open>answer\<close> is what the call of \<open>input\<close> gives: \<open>Some\<close> of the line typed, or
  \<open>None\<close> when it raises \<open>EOFError\<close>, which the function does not catch.
\<close>

definition restore_database ::
    "(string \<Rightarrow> string) \<Rightarrow> string \<Rightarrow> bool \<Rightarrow> string option \<Rightarrow> world \<Rightarrow> error + world" where
  "restore_database lower filename confirm answer w =
     (case map_of (files w) filename of
        None \<Rightarrow> Inl SystemExit
      | Some data \<Rightarrow>
          (let restore = and_then (make_request PUT [] data w) (\<lambda>(r, w1). Inr w1) in
           if \<not> confirm then
             (case answer of
                None \<Rightarrow> Inl EOFError
              | Some response \<Rightarrow> if lower response \<noteq> ''yes'' then Inr w else restore)
           else restore))"

section \<open>Section index maintenance\<close>

text \<open>
  \<open>_add_student_to_section\<close>: read the section (an absent one reads as \<open>{}\<close>), take its
  \<open>students\<close> list (default \<open>[]\<close>), and when the id is not in it, append the id and
  write the list back.
\<close>

definition add_student_to_section :: "string \<Rightarrow> string \<Rightarrow> world \<Rightarrow> error + world" where
  "add_student_to_section student_id section_id w =
     and_then (make_request GET [''sections'', section_id] JNull w) (\<lambda>(r, w1).
     let section = or_empty r in
     and_then (py_get section ''students'' (JList [])) (\<lambda>students_list.
     and_then (py_in student_id students_list) (\<lambda>present.
       if \<not> present then
         and_then (py_append students_list (JStr student_id)) (\<lambda>students_list.
         and_then (make_request PUT [''sections'', section_id, ''students''] students_list w1)
           (\<lambda>(r, w2). Inr w2))
       else Inr w1)))"

text \<open>\<open>_add_teacher_to_section\<close>: the same on the \<open>teachers\<close> list.\<close>

definition add_teacher_to_section :: "string \<Rightarrow> string \<Rightarrow> world \<Rightarrow> error + world" where
  "add_teacher_to_section teacher_id section_id w =
     and_then (make_request GET [''sections'', section_id] JNull w) (\<lambda>(r, w1).
     let section = or_empty r in
     and_then (py_get section ''teachers'' (JList [])) (\<lambda>teachers_list.
     and_then (py_in teacher_id teachers_list) (\<lambda>present.
       if \<not> present then
         and_then (py_append teachers_list (JStr teacher_id)) (\<lambda>teachers_list.
         and_then (make_request PUT [''sections'', section_id, ''teachers''] teachers_list w1)
           (\<lambda>(r, w2). Inr w2))
       else Inr w1)))"

section \<open>Adding students and sections\<close>



text \<open>\<open>create_section\<close>: post a section record with empty membership lists.\<close>

definition create_section :: "json \<Rightarrow> world \<Rightarrow> error + json \<times> world" where
  "create_section name w =
     (let (created_at, w1) = now_isoformat w;
          (updated_at, w2) = now_isoformat w1;
          section_data = JObj
            [(''name'', name),
             (''teachers'', JList []),
             (''students'', JList []),
             (''createdAt'', JStr created_at),
             (''updatedAt'', JStr updated_at)]
      in
      and_then (make_request POST [''sections''] section_data w2) (\<lambda>(result, w3).
      and_then (py_get result ''name'' JNull) (\<lambda>section_id. Inr (section_id, w3))))"

section \<open>The schema migrator\<close>

text \<open>
  \<open>sections_to_create\<close> is a Python set of JSON scalars. Lists and dicts cannot be
  hashed; \<open>True\<close> and \<open>1\<close>, \<open>False\<close> and \<open>0\<close> are equal as set elements. The
  set is kept as a duplicate-free list in insertion order; Python's own iteration
  order is unspecified.
\<close>

fun hashable :: "json \<Rightarrow> bool" where
  "hashable (JList xs) = False"
| "hashable (JObj kvs) = False"
| "hashable _ = True"

fun set_key :: "json \<Rightarrow> json" where
  "set_key (JBool b) = JNum (if b then 1 else 0)"
| "set_key j = j"

definition set_add :: "json \<Rightarrow> json list \<Rightarrow> json list" where
  "set_add x xs = (if set_key x \<in> set_key ` set xs then xs else xs @ [x])"

text \<open>
  The records to visit: a list is enumerated with its null entries left out (the
  index, rendered in decimal, is the record's key), a dict gives its items, a string
  has no \<open>items\<close> method.
\<close>

fun student_items :: "json \<Rightarrow> error + (string \<times> json) list" where
  "student_items (JList xs) =
     Inr (map (\<lambda>(i, x). (dec i, x)) (filter (\<lambda>(i, x). x \<noteq> JNull) (zip [0..<length xs] xs)))"
| "student_items (JObj kvs) = Inr kvs"
| "student_items _ = Inl AttributeError"

text \<open>\<open>len(x)\<close> raises on \<open>None\<close>, booleans and numbers.\<close>

fun py_len :: "json \<Rightarrow> error + nat" where
  "py_len (JStr s) = Inr (length s)"
| "py_len (JList xs) = Inr (length xs)"
| "py_len (JObj kvs) = Inr (length kvs)"
| "py_len _ = Inl TypeError"

text \<open>
  The test \<open>'sections' in student_data and isinstance(student_data['sections'], list)\<close>;
  the subscript is evaluated only when the key test holds.
\<close>

definition already_migrated :: "json \<Rightarrow> error + bool" where
  "already_migrated student_data =
     and_then (py_in ''sections'' student_data) (\<lambda>has.
       if has then and_then (py_index student_data ''sections'') (\<lambda>v. Inr (is_list v))
       else Inr False)"

text \<open>One round of the migration loop, on the loop's state.\<close>

definition migrate_student ::
    "string \<Rightarrow> json \<Rightarrow> json list \<times> nat \<times> world \<Rightarrow> error + json list \<times> nat \<times> world" where
  "migrate_student student_id student_data st =
     (case st of (sections_to_create, migrated_count, w) \<Rightarrow>
      and_then (already_migrated student_data) (\<lambda>skip.
        if skip then Inr (sections_to_create, migrated_count, w)
        else
          and_then (py_get student_data ''section'' (JStr ''default'')) (\<lambda>old_section.
            case student_data of
              JObj kvs \<Rightarrow>
                (let kvs = AList.update ''sections'' (JList [old_section]) kvs;
                     (updated_at, w1) = now_isoformat w;
                     kvs = AList.update ''updatedAt'' (JStr updated_at) kvs;
                     kvs = (if ''section'' \<in> fst ` set kvs then AList.delete ''section'' kvs else kvs)
                 in
                 and_then (make_request PUT [''students'', student_id] (JObj kvs) w1) (\<lambda>(r, w2).
                   if hashable old_section
                   then Inr (set_add old_section sections_to_create, migrated_count + 1, w2)
                   else Inl TypeError))
            | _ \<Rightarrow> Inl AttributeError)))"

fun migrate_students ::
    "(string \<times> json) list \<Rightarrow> json list \<times> nat \<times> world \<Rightarrow> error + json list \<times> nat \<times> world" where
  "migrate_students [] st = Inr st"
| "migrate_students ((student_id, student_data) # rest) st =
     and_then (migrate_student student_id student_data st) (migrate_students rest)"

text \<open>The loop \<open>for section_name in sections_to_create\<close>.\<close>

fun create_sections :: "json list \<Rightarrow> world \<Rightarrow> error + world" where
  "create_sections [] w = Inr w"
| "create_sections (section_name # rest) w =
     (if truthy section_name \<and> section_name \<noteq> JStr ''default''
      then and_then (create_section section_name w) (\<lambda>(section_id, w1). create_sections rest w1)
      else create_sections rest w)"

text \<open>
  \<open>migrate_to_multisection\<close>: back up, read the students, migrate each record that has no
  \<open>sections\<close> list, then create the collected sections. It returns \<open>True\<close>.
\<close>

definition migrate_to_multisection :: "world \<Rightarrow> error + bool \<times> world" where
  "migrate_to_multisection w =
     (let (stamp, w1) = now_strftime w in
      and_then (backup_database (Some (''pre_migration_backup_'' @ stamp @ ''.json'')) w1)
        (\<lambda>(backup_file, w2).
      and_then (make_request GET [''students''] JNull w2) (\<lambda>(r, w3).
      let students_data = or_empty r in
      and_then (py_len students_data) (\<lambda>n.
      and_then (student_items students_data) (\<lambda>items.
      and_then (migrate_students items ([], 0, w3)) (\<lambda>(sections_to_create, migrated_count, w4).
      and_then (create_sections sections_to_create w4) (\<lambda>w5.
        Inr (True, w5))))))))"

section \<open>The integrity validator\<close>

datatype issue =
    StudentMissingSections string
  | StudentSectionsNotArray string
  | StudentEmptySections string
  | SectionMissingField string string

definition check_student :: "string \<Rightarrow> json \<Rightarrow> issue list \<Rightarrow> error + issue list" where
  "check_student student_id student_data issues =
     and_then (py_in ''sections'' student_data) (\<lambda>has.
       if \<not> has then Inr (issues @ [StudentMissingSections student_id])
       else
         and_then (py_index student_data ''sections'') (\<lambda>v.
           if \<not> is_list v then Inr (issues @ [StudentSectionsNotArray student_id])
           else if \<not> truthy v then Inr (issues @ [StudentEmptySections student_id])
           else Inr issues))"

fun check_students :: "(string \<times> json) list \<Rightarrow> issue list \<Rightarrow> error + issue list" where
  "check_students [] issues = Inr issues"
| "check_students ((student_id, student_data) # rest) issues =
     and_then (check_student student_id student_data issues) (check_students rest)"

definition check_field :: "string \<Rightarrow> json \<Rightarrow> string \<Rightarrow> issue list \<Rightarrow> error + issue list" where
  "check_field section_id section_data field issues =
     and_then (py_in field section_data) (\<lambda>has.
       Inr (if \<not> has then issues @ [SectionMissingField section_id field] else issues))"

definition check_section :: "string \<Rightarrow> json \<Rightarrow> issue list \<Rightarrow> error + issue list" where
  "check_section section_id section_data issues =
     and_then (check_field section_id section_data ''name'' issues) (\<lambda>issues.
     and_then (check_field section_id section_data ''students'' issues) (\<lambda>issues.
     check_field section_id section_data ''teachers'' issues))"

fun check_sections :: "(string \<times> json) list \<Rightarrow> issue list \<Rightarrow> error + issue list" where
  "check_sections [] issues = Inr issues"
| "check_sections ((section_id, section_data) # rest) issues =
     and_then (check_section section_id section_data issues) (check_sections rest)"

text \<open>
  \<open>validate_data_integrity\<close>: collect the issues of all students and sections and
  return whether there is none. The issues are returned with the verdict, as the
  function prints them.
\<close>

definition validate_data_integrity :: "world \<Rightarrow> error + (bool \<times> issue list) \<times> world" where
  "validate_data_integrity w =
     and_then (make_request GET [''students''] JNull w) (\<lambda>(r, w1).
     let students_data = or_empty r in
     and_then (make_request GET [''sections''] JNull w1) (\<lambda>(r, w2).
     let sections_data = or_empty r in
     and_then (student_items students_data) (\<lambda>items.
     and_then (check_students items []) (\<lambda>issues.
     and_then (case sections_data of
                 JObj kvs \<Rightarrow> check_sections kvs issues
               | _ \<Rightarrow> Inr issues) (\<lambda>issues.
       Inr ((issues = [], issues), w2))))))"

section \<open>The bulk import of migrate\_sections\_enhanced.py\<close>

text \<open>
  The student dict that \<open>read_csv_file\<close> builds, field by field; \<open>ident\<close> is its key
  \<open>id\<close> and \<open>notes_list\<close> its key \<open>notes\<close>.
\<close>

record student =
  ident :: int
  name :: string
  admission_number :: string
  photo_url :: string
  sections :: "string list"
  status :: string
  activity :: string
  timer_end :: json
  notes_list :: "json list"
  lastResetDate :: string




text \<open>\<open>str(n)\<close> for an integer.\<close>

definition int_str :: "int \<Rightarrow> string" where
  "int_str i = (if i < 0 then CHR ''-'' # dec (nat (- i)) else dec (nat i))"

definition student_json :: "student \<Rightarrow> json" where
  "student_json s = JObj
     [(''id'', JNum (ident s)),
      (''name'', JStr (name s)),
      (''admission_number'', JStr (admission_number s)),
      (''photo_url'', JStr (photo_url s)),
      (''sections'', JList (map JStr (sections s))),
      (''status'', JStr (status s)),
      (''activity'', JStr (activity s)),
      (''timer_end'', timer_end s),
      (''notes'', JList (notes_list s)),
      (''lastResetDate'', JStr (lastResetDate s))]"

text \<open>
  The script calls \<open>requests\<close> itself: a request gives a status (200 or not) or
  raises.
\<close>

definition http :: "http_method \<Rightarrow> string list \<Rightarrow> json \<Rightarrow> world \<Rightarrow> outcome \<times> json \<times> world" where
  "http m path data w =
     (let w1 = log_request m path data w in
      case transport w (length (requests w)) of
        Ok \<Rightarrow> (let (r, w2) = serve m path data w1 in (Ok, r, w2))
      | HttpError \<Rightarrow> (HttpError, JNull, w1)
      | ConnectionError \<Rightarrow> (ConnectionError, JNull, w1))"

text \<open>The admission numbers of the existing records that are dicts and have one.\<close>

fun admission_numbers :: "(string \<times> json) list \<Rightarrow> json list" where
  "admission_numbers [] = []"
| "admission_numbers ((k, JObj d) # rest) =
     (case map_of d ''admission_number'' of
        None \<Rightarrow> admission_numbers rest
      | Some v \<Rightarrow> v # admission_numbers rest)"
| "admission_numbers ((k, v) # rest) = admission_numbers rest"

definition collides :: "string list \<Rightarrow> json list \<Rightarrow> student \<Rightarrow> bool" where
  "collides existing_ids existing_admission_numbers s =
     (int_str (ident s) \<in> set existing_ids
      \<or> JStr (admission_number s) \<in> set existing_admission_numbers)"

text \<open>
  \<open>check_existing_students\<close>: the students to upload, with the conflicts it reports.
  Whenever the check cannot be made (the request fails, there is no existing data, or
  an exception is caught) the whole batch is returned. \<open>choice\<close> is what the call of
  \<open>input\<close> gives when the operator is asked whether to continue: \<open>Some\<close> of the line
  typed, or \<open>None\<close> when it raises (\<open>EOFError\<close> on a closed standard input). That
  exception is caught by the function's own handler like any other, after the conflicts
  have been printed, and the whole batch is returned.
\<close>

definition check_existing_students ::
    "(string \<Rightarrow> string) \<Rightarrow> string option \<Rightarrow> student list \<Rightarrow> world \<Rightarrow>
     (student list \<times> student list) \<times> world" where
  "check_existing_students lower choice students w =
     (let (oc, existing_data, w1) = http GET [''students''] JNull w in
      case oc of
        ConnectionError \<Rightarrow> ((students, []), w1)
      | HttpError \<Rightarrow> ((students, []), w1)
      | Ok \<Rightarrow>
          if \<not> truthy existing_data then ((students, []), w1)
          else
            (case existing_data of
               JObj kvs \<Rightarrow>
                 (let existing_ids = map fst kvs;
                      existing_admission_numbers = admission_numbers kvs
                  in
                  if \<exists>v \<in> set existing_admission_numbers. \<not> hashable v then ((students, []), w1)
                  else
                    (let new_students = filter (\<lambda>s. \<not> collides existing_ids existing_admission_numbers s) students;
                         conflicts = filter (collides existing_ids existing_admission_numbers) students
                     in
                     if conflicts \<noteq> [] then
                       (case choice of
                          None \<Rightarrow> ((students, conflicts), w1)
                        | Some answer \<Rightarrow>
                            if lower answer \<noteq> ''y'' then (([], conflicts), w1)
                            else ((new_students, conflicts), w1))
                     else ((new_students, []), w1)))
             | _ \<Rightarrow> ((students, []), w1)))"

text \<open>
  The upload loop (the batches of ten only group the progress messages): the count of
  successful uploads, or \<open>None\<close> when a request raises.
\<close>

fun upload_students :: "string \<Rightarrow> student list \<Rightarrow> nat \<Rightarrow> world \<Rightarrow> nat option \<times> world" where
  "upload_students section_name [] successful_uploads w = (Some successful_uploads, w)"
| "upload_students section_name (s # rest) successful_uploads w =
     (let s = s\<lparr>sections := [section_name]\<rparr>;
          (oc, r, w1) = http PUT [''students'', int_str (ident s)] (student_json s) w
      in case oc of
           Ok \<Rightarrow> upload_students section_name rest (successful_uploads + 1) w1
         | HttpError \<Rightarrow> upload_students section_name rest successful_uploads w1
         | ConnectionError \<Rightarrow> (None, w1))"

definition section_key_of :: "(string \<Rightarrow> string) \<Rightarrow> string \<Rightarrow> string" where
  "section_key_of lower section_name =
     lower (map (\<lambda>c. if c = CHR '' '' then CHR ''_'' else c) section_name)"

text \<open>
  \<open>upload_section_to_firebase\<close>: the verdict it returns, with the conflicts reported on
  the way.
\<close>

definition upload_section_to_firebase ::
    "(string \<Rightarrow> string) \<Rightarrow> string option \<Rightarrow> string \<Rightarrow> student list \<Rightarrow> world \<Rightarrow>
     (bool \<times> student list) \<times> world" where
  "upload_section_to_firebase lower choice section_name students w =
     (let ((students_to_upload, conflicts), w1) = check_existing_students lower choice students w in
      if students_to_upload = [] then ((True, conflicts), w1)
      else
        (let section_key = section_key_of lower section_name;
             section_data = JObj
               [(''name'', JStr section_name),
                (''grade'', JStr ''XI''),
                (''student_count'', JNum (int (length students_to_upload))),
                (''created_at'', JStr ''2025-01-27''),
                (''updated_at'', JStr ''2025-01-27'')];
             (oc, r, w2) = http PUT [''sections'', section_key] section_data w1
         in case oc of
              ConnectionError \<Rightarrow> ((False, conflicts), w2)
            | HttpError \<Rightarrow> ((False, conflicts), w2)
            | Ok \<Rightarrow>
                (case upload_students section_name students_to_upload 0 w2 of
                   (None, w3) \<Rightarrow> ((False, conflicts), w3)
                 | (Some successful_uploads, w3) \<Rightarrow> ((successful_uploads > 0, conflicts), w3))))"

section \<open>Notions used in the statements\<close>

text \<open>
  The membership list of a section as the add-to-section operations read it: the
  section record, an absent or empty one taken as \<open>{}\<close>, and in it the list under
  \<open>field\<close>, \<open>[]\<close> when there is none.
\<close>

definition section_list :: "string \<Rightarrow> json \<Rightarrow> string \<Rightarrow> json" where
  "section_list field rt section_id =
     (case or_empty (jget rt [''sections'', section_id]) of
        JObj kvs \<Rightarrow> (case map_of kvs field of None \<Rightarrow> JList [] | Some v \<Rightarrow> v)
      | _ \<Rightarrow> JNull)"

text \<open>The common shape of both add-to-section operations.\<close>

definition add_member :: "string \<Rightarrow> string \<Rightarrow> string \<Rightarrow> world \<Rightarrow> error + world" where
  "add_member field member_id section_id w =
     and_then (make_request GET [''sections'', section_id] JNull w) (\<lambda>(r, w1).
     and_then (py_get (or_empty r) field (JList [])) (\<lambda>members.
     and_then (py_in member_id members) (\<lambda>present.
       if \<not> present then
         and_then (py_append members (JStr member_id)) (\<lambda>members.
         and_then (make_request PUT [''sections'', section_id, field] members w1)
           (\<lambda>(r, w2). Inr w2))
       else Inr w1)))"

text \<open>A world for the examples: the given tree, a working network, nothing sent yet.\<close>

definition demo_world :: "json \<Rightarrow> world" where
  "demo_world rt =
     \<lparr>root = rt, files = [], isoformat = (\<lambda>n. ''2025-01-27T10:00:0'' @ dec n),
      strftime = (\<lambda>n. ''20250127_10000'' @ dec n), tick = 0,
      keys = (\<lambda>n. ''-K'' @ dec n), next_key = 0, transport = (\<lambda>n. Ok), requests = []\<rparr>"

definition section_a :: json where
  "section_a = JObj [(''sections'', JObj [(''A'',
     JObj [(''name'', JStr ''A''), (''students'', JList [JStr ''s1'']), (''teachers'', JList [])])])]"

text \<open>
  Stand-ins for Python's string functions in the examples: lower-casing of ASCII
  letters, stripping of blanks, decimal digits read as an integer, and a \<open>title\<close>
  that capitalises the first letter.
\<close>

definition ascii_lower :: "string \<Rightarrow> string" where
  "ascii_lower s =
     map (\<lambda>c. if 65 \<le> (of_char c :: nat) \<and> (of_char c :: nat) \<le> 90
              then char_of ((of_char c :: nat) + 32) else c) s"








text \<open>Every request from now on succeeds.\<close>

definition all_ok :: "world \<Rightarrow> bool" where
  "all_ok w = (\<forall>n \<ge> length (requests w). transport w n = Ok)"

text \<open>The request that uploads one student to a section.\<close>

definition put_student :: "string \<Rightarrow> student \<Rightarrow> http_method \<times> string list \<times> json" where
  "put_student section_name s =
     (PUT, [''students'', int_str (ident s)], student_json (s\<lparr>sections := [section_name]\<rparr>))"

text \<open>
  What the validator asks of a student record (a dict whose \<open>sections\<close> is a non-empty
  list) and of a section record (\<open>name\<close>, \<open>students\<close> and \<open>teachers\<close> are in it).
\<close>

definition student_passes :: "json \<Rightarrow> bool" where
  "student_passes v =
     (case v of
        JObj d \<Rightarrow> (case map_of d ''sections'' of Some (JList (x # xs)) \<Rightarrow> True | _ \<Rightarrow> False)
      | _ \<Rightarrow> False)"

definition section_passes :: "json \<Rightarrow> bool" where
  "section_passes v =
     (py_in ''name'' v = Inr True \<and> py_in ''students'' v = Inr True
      \<and> py_in ''teachers'' v = Inr True)"

text \<open>A student in section \<open>A\<close> whom section \<open>A\<close> does not list.\<close>

definition dangling :: json where
  "dangling = JObj
     [(''students'', JObj [(''s1'', JObj [(''name'', JStr ''Ann''), (''sections'', JList [JStr ''A''])])]),
      (''sections'', JObj [(''A'',
         JObj [(''name'', JStr ''A''), (''students'', JList []), (''teachers'', JList [])])])]"

text \<open>
  A student dict counts as migrated when its \<open>sections\<close> is a list. The section value
  the migrator takes from a record that is not: its \<open>section\<close>, or \<open>default\<close>. The
  record the migrator writes back for it at the time stamp \<open>ts\<close>.
\<close>

definition has_sections_list :: "(string \<times> json) list \<Rightarrow> bool" where
  "has_sections_list d = (case map_of d ''sections'' of Some (JList xs) \<Rightarrow> True | _ \<Rightarrow> False)"

definition old_section_of :: "(string \<times> json) list \<Rightarrow> json" where
  "old_section_of d = (case map_of d ''section'' of None \<Rightarrow> JStr ''default'' | Some x \<Rightarrow> x)"

definition migrated_record :: "(string \<times> json) list \<Rightarrow> string \<Rightarrow> (string \<times> json) list" where
  "migrated_record d ts =
     (let kvs = AList.update ''sections'' (JList [old_section_of d]) d;
          kvs = AList.update ''updatedAt'' (JStr ts) kvs
      in if ''section'' \<in> fst ` set kvs then AList.delete ''section'' kvs else kvs)"

text \<open>The requests of a run, and the names of the sections posted among some requests.\<close>

definition run_requests :: "world \<Rightarrow> world \<Rightarrow> (http_method \<times> string list \<times> json) list" where
  "run_requests w w' = drop (length (requests w)) (requests w')"

definition posted_names :: "(http_method \<times> string list \<times> json) list \<Rightarrow> json list" where
  "posted_names rs =
     map (\<lambda>(m, p, d). child d ''name'') (filter (\<lambda>(m, p, d). m = POST \<and> p = [''sections'']) rs)"

text \<open>
  Example trees: a legacy record beside a migrated one; a record with neither \<open>section\<close>
  nor \<open>sections\<close>; a record whose \<open>sections\<close> is a string; a legacy record of section
  \<open>A\<close> beside an existing section with the slug \<open>a\<close>.
\<close>

definition legacy_items :: "(string \<times> json) list" where
  "legacy_items =
     [(''s1'', JObj [(''name'', JStr ''Ann''), (''section'', JStr ''A'')]),
      (''s2'', JObj [(''name'', JStr ''Bob''), (''sections'', JList [JStr ''B''])])]"

definition legacy_tree :: json where
  "legacy_tree = JObj [(''students'', JObj legacy_items)]"

definition bare_tree :: json where
  "bare_tree = JObj [(''students'', JObj [(''s1'', JObj [(''name'', JStr ''Ann'')])])]"

definition scalar_items :: "(string \<times> json) list" where
  "scalar_items = [(''s1'', JObj [(''name'', JStr ''Ann''), (''sections'', JStr ''A'')])]"

definition scalar_tree :: json where
  "scalar_tree = JObj [(''students'', JObj scalar_items)]"

definition legacy_with_section :: json where
  "legacy_with_section = JObj
     [(''students'', JObj [(''s1'', JObj [(''name'', JStr ''Ann''), (''section'', JStr ''A'')])]),
      (''sections'', JObj [(''a'',
         JObj [(''name'', JStr ''A''), (''students'', JList []), (''teachers'', JList [])])])]"

section \<open>Properties of the store\<close>

lemma digit_val_digit_char: "d < 10 \<Longrightarrow> digit_val (digit_char d) = Some d"
  by (simp add: digit_val_def digit_char_def Let_def)

lemma undec_acc_snoc:
  "undec_acc a (cs @ [c]) =
     (case undec_acc a cs of None \<Rightarrow> None
      | Some b \<Rightarrow> (case digit_val c of None \<Rightarrow> None | Some d \<Rightarrow> Some (10 * b + d)))"
  by (induction cs arbitrary: a) (auto split: option.splits)

lemma dec_nonempty: "dec n \<noteq> []"
  by (subst dec.simps) simp

lemma undec_acc_dec: "undec_acc 0 (dec n) = Some n"
proof (induction n rule: dec.induct)
  case (1 n)
  show ?case
  proof (cases "n < 10")
    case True
    then show ?thesis by (subst dec.simps) (simp add: digit_val_digit_char)
  next
    case False
    with 1 have "undec_acc 0 (dec (n div 10)) = Some (n div 10)" by simp
    with False show ?thesis
      by (subst dec.simps) (simp add: undec_acc_snoc digit_val_digit_char)
  qed
qed

lemma undec_dec: "undec (dec n) = Some n"
  by (simp add: undec_def dec_nonempty undec_acc_dec)

lemma dec_inj: "dec i = dec j \<Longrightarrow> i = j"
  by (metis undec_dec option.inject)

lemma list_index_dec: "i < n \<Longrightarrow> list_index (dec i) n = Some i"
  by (simp add: list_index_def undec_dec)

lemma list_index_SomeD: "list_index k n = Some i \<Longrightarrow> i < n \<and> dec i = k"
  by (auto simp: list_index_def split: option.splits if_splits)

lemma map_of_list_as_obj:
  "map_of (list_as_obj xs) k =
     (case list_index k (length xs) of None \<Rightarrow> None | Some i \<Rightarrow> Some (xs ! i))"
proof (cases "list_index k (length xs)")
  case None
  have "k \<notin> set (map dec [0..<length xs])"
  proof
    assume "k \<in> set (map dec [0..<length xs])"
    then obtain i where "i < length xs" "k = dec i" by auto
    with None show False by (simp add: list_index_dec)
  qed
  then have "map_of (list_as_obj xs) k = None"
    unfolding list_as_obj_def by (simp add: map_of_zip_is_None)
  with None show ?thesis by simp
next
  case (Some i)
  then have i: "i < length xs" "dec i = k" by (auto dest: list_index_SomeD)
  have d: "distinct (map dec [0..<length xs])"
    by (simp add: distinct_map inj_on_def dec_inj)
  have "map_of (zip (map dec [0..<length xs]) xs) (map dec [0..<length xs] ! i) = Some (xs ! i)"
    using i d by (intro map_of_zip_nth) auto
  with i Some show ?thesis by (simp add: list_as_obj_def)
qed

lemma child_obj_put: "child (obj_put kvs k v) k' = (if k' = k then v else child (JObj kvs) k')"
  by (auto simp: obj_put_def AList.update_conv' AList.delete_conv')

lemma child_set_child: "child (set_child j k v) k' = (if k' = k then v else child j k')"
proof (cases j)
  case (JList xs)
  show ?thesis
  proof (cases "list_index k (length xs)")
    case None
    with JList show ?thesis
      by (auto simp: child_obj_put map_of_list_as_obj split: option.splits)
  next
    case (Some i)
    then have "i < length xs" "dec i = k" by (auto dest: list_index_SomeD)
    with JList Some show ?thesis
      by (auto split: option.splits dest!: list_index_SomeD simp: nth_list_update)
  qed
qed (auto simp: child_obj_put)

lemma jget_jput_same: "jget (jput j p v) p = v"
  by (induction p arbitrary: j) (auto simp: child_set_child)

lemma jget_jput_diverge:
  "k \<noteq> k' \<Longrightarrow> jget (jput j (c @ k # p) v) (c @ k' # q) = jget j (c @ k' # q)"
  by (induction c arbitrary: j) (auto simp: child_set_child)

lemma and_then_Inr: "and_then r f = Inr y \<longleftrightarrow> (\<exists>x. r = Inr x \<and> f x = Inr y)"
  by (cases r) (auto simp: and_then_def)

lemma make_request_Inr:
  "make_request m p d w = Inr (r, w1) \<longleftrightarrow>
     transport w (length (requests w)) = Ok \<and> (r, w1) = serve m p d (log_request m p d w)"
  by (auto simp: make_request_def split: outcome.splits)

lemma serve_GET: "serve GET p d w = (jget (root w) p, w)"
  by (simp add: serve_def)

lemma serve_PUT: "serve PUT p d w = (d, w\<lparr>root := jput (root w) p d\<rparr>)"
  by (simp add: serve_def)

lemma root_log_request [simp]: "root (log_request m p d w) = root w"
  by (simp add: log_request_def)

text \<open>A non-null child makes an object that reads as true.\<close>

lemma set_child_is_obj: "v \<noteq> JNull \<Longrightarrow> \<not> truthy j \<or> is_dict j \<Longrightarrow> \<exists>kvs. set_child j k v = JObj kvs \<and> kvs \<noteq> [] \<and> map_of kvs k = Some v"
  by (cases j) (auto simp: obj_put_def AList.update_conv' list_index_def undec_def list_as_obj_def
      split: option.splits)

section \<open>Section index maintenance\<close>

lemma add_student_to_section_eq: "add_student_to_section = add_member ''students''"
  by (intro ext) (simp add: add_student_to_section_def add_member_def)

lemma add_teacher_to_section_eq: "add_teacher_to_section = add_member ''teachers''"
  by (intro ext) (simp add: add_teacher_to_section_def add_member_def)

lemma py_get_section_list:
  "py_get (or_empty (jget rt [''sections'', s])) f (JList []) = Inr v \<Longrightarrow> section_list f rt s = v"
  by (cases "or_empty (jget rt [''sections'', s])") (auto simp: section_list_def split: option.splits)

lemma add_member_cases:
  assumes "add_member f m s w = Inr w'"
  shows "(\<exists>v. section_list f (root w) s = v \<and> py_in m v = Inr True \<and> root w' = root w
             \<and> requests w' = requests w @ [(GET, [''sections'', s], JNull)])
       \<or> (\<exists>xs. section_list f (root w) s = JList xs \<and> JStr m \<notin> set xs
             \<and> root w' = jput (root w) [''sections'', s, f] (JList (xs @ [JStr m]))
             \<and> (\<not> truthy (jget (root w) [''sections'', s]) \<or> is_dict (jget (root w) [''sections'', s])))"
proof -
  from assms obtain r w1 members present where
    g: "make_request GET [''sections'', s] JNull w = Inr (r, w1)"
    and m: "py_get (or_empty r) f (JList []) = Inr members"
    and p: "py_in m members = Inr present"
    and rest: "(if \<not> present then
         and_then (py_append members (JStr m)) (\<lambda>members.
         and_then (make_request PUT [''sections'', s, f] members w1)
           (\<lambda>(r, w2). Inr w2))
       else Inr w1) = Inr w'"
    by (auto simp: add_member_def and_then_Inr split: prod.splits)
  from g have r: "r = jget (root w) [''sections'', s]" and w1: "w1 = log_request GET [''sections'', s] JNull w"
    by (auto simp: make_request_Inr serve_GET)
  from m r have sl: "section_list f (root w) s = members" by (simp add: py_get_section_list)
  show ?thesis
  proof (cases present)
    case True
    with rest have "w' = w1" by simp
    with True p sl w1 show ?thesis by (simp add: log_request_def)
  next
    case False
    with rest obtain members' r2 where a: "py_append members (JStr m) = Inr members'"
      and put: "make_request PUT [''sections'', s, f] members' w1 = Inr (r2, w')"
      by (auto simp: and_then_Inr split: prod.splits)
    from a obtain xs where xs: "members = JList xs" "members' = JList (xs @ [JStr m])"
      by (cases members) auto
    from put w1 xs have "root w' = jput (root w) [''sections'', s, f] (JList (xs @ [JStr m]))"
      by (auto simp: make_request_Inr serve_PUT)
    moreover from p xs False have "JStr m \<notin> set xs" by simp
    moreover from m r have "\<not> truthy (jget (root w) [''sections'', s]) \<or> is_dict (jget (root w) [''sections'', s])"
      by (cases "jget (root w) [''sections'', s]") (auto simp: or_empty_def split: if_splits)
    ultimately show ?thesis using sl xs by simp
  qed
qed

lemma section_list_after_put:
  assumes "\<not> truthy (jget rt [''sections'', s]) \<or> is_dict (jget rt [''sections'', s])" "v \<noteq> JNull"
  shows "section_list f (jput rt [''sections'', s, f] v) s = v"
proof -
  have "jget (jput rt [''sections'', s, f] v) [''sections'', s]
        = set_child (jget rt [''sections'', s]) f v"
    by (simp add: child_set_child)
  moreover from set_child_is_obj[OF assms(2) assms(1), of f]
  obtain kvs where "set_child (jget rt [''sections'', s]) f v = JObj kvs" "kvs \<noteq> []" "map_of kvs f = Some v"
    by blast
  ultimately show ?thesis by (simp add: section_list_def or_empty_def)
qed

lemma add_member_result:
  assumes "add_member f m s w = Inr w'" "section_list f (root w) s = JList xs"
  shows "section_list f (root w') s = JList (if JStr m \<in> set xs then xs else xs @ [JStr m])"
    and "JStr m \<in> set xs \<longrightarrow> root w' = root w"
  using add_member_cases[OF assms(1)] assms(2)
  by (auto simp del: jget.simps jput.simps simp: section_list_after_put)

lemma add_member_present_after:
  assumes "add_member f m s w = Inr w'"
  shows "py_in m (section_list f (root w') s) = Inr True"
  using add_member_cases[OF assms]
  by (auto simp del: jget.simps jput.simps simp: section_list_after_put)

lemma add_member_idem:
  assumes "add_member f m s w = Inr w'" "add_member f m s w' = Inr w''"
  shows "root w'' = root w'"
  using add_member_cases[OF assms(2)] add_member_present_after[OF assms(1)]
  by auto


lemma section_list_absent:
  "jget rt [''sections'', s] = JNull \<Longrightarrow> section_list f rt s = JList []"
  by (simp add: section_list_def or_empty_def del: jget.simps)

lemma add_member_spec:
  assumes run: "add_member f m s w = Inr w'"
  shows "(\<forall>xs. section_list f (root w) s = JList xs \<longrightarrow>
         section_list f (root w') s = JList (if JStr m \<in> set xs then xs else xs @ [JStr m])
         \<and> (JStr m \<in> set xs \<longrightarrow> root w' = root w))
      \<and> (jget (root w) [''sections'', s] = JNull \<longrightarrow> section_list f (root w') s = JList [JStr m])
      \<and> (\<forall>w''. add_member f m s w' = Inr w'' \<longrightarrow> root w'' = root w')"
proof (intro conjI allI impI)
  fix xs assume "section_list f (root w) s = JList xs"
  then show "section_list f (root w') s = JList (if JStr m \<in> set xs then xs else xs @ [JStr m])"
    by (rule add_member_result(1)[OF run])
next
  fix xs assume "section_list f (root w) s = JList xs" "JStr m \<in> set xs"
  then show "root w' = root w"
    using add_member_result(2)[OF run] by blast
next
  assume "jget (root w) [''sections'', s] = JNull"
  then have "section_list f (root w) s = JList []" by (rule section_list_absent)
  from add_member_result(1)[OF run this]
  show "section_list f (root w') s = JList [JStr m]" by simp
next
  fix w'' assume "add_member f m s w' = Inr w''"
  then show "root w'' = root w'" by (rule add_member_idem[OF run])
qed

section \<open>Adding a student\<close>

lemma serve_POST:
  "serve POST p d w =
     (JObj [(''name'', JStr (keys w (next_key w)))],
      w\<lparr>root := jput (root w) (p @ [keys w (next_key w)]) d, next_key := next_key w + 1\<rparr>)"
  by (simp add: serve_def Let_def)







section \<open>Backup followed by restore\<close>

text \<open>
  Claim C9. A backup of the store holding the tree \<open>t\<close>, restored over any state of
  the store (the backup file untouched in between, the operator confirming), writes
  back exactly \<open>t\<close>; the backup itself leaves the store as it is.
\<close>

theorem backup_restore_roundtrip:
  assumes "backup_database fn w = Inr (f, w1)"
    and "map_of (files w2) f = map_of (files w1) f"
    and "confirm \<or> answer = Some response \<and> lower response = ''yes''"
    and "transport w2 (length (requests w2)) = Ok"
  shows "root w1 = root w
       \<and> (\<exists>w3. restore_database lower f confirm answer w2 = Inr w3 \<and> root w3 = root w)"
proof -
  from assms(1) have "root w1 = root w \<and> map_of (files w1) f = Some (root w)"
    by (auto simp: backup_database_def and_then_Inr make_request_Inr serve_GET Let_def
        now_strftime_def AList.update_conv' split: option.splits if_splits prod.splits)
  with assms(2-4) show ?thesis
    by (auto simp: restore_database_def and_then_def make_request_def serve_PUT Let_def)
qed

theorem backup_restore_roundtrip_witness:
  "\<not> isl (backup_database (Some ''b.json'') (demo_world section_a))
   \<and> root (projr (restore_database ascii_lower
        (fst (projr (backup_database (Some ''b.json'') (demo_world section_a)))) False (Some ''YES'')
        ((snd (projr (backup_database (Some ''b.json'') (demo_world section_a))))\<lparr>root := JNull\<rparr>)))
      = section_a"
proof -
  let ?b = "backup_database (Some ''b.json'') (demo_world section_a)"
  let ?w2 = "(snd (projr ?b))\<lparr>root := JNull\<rparr>"
  have ok: "\<not> isl ?b" by code_simp
  then have run: "?b = Inr (fst (projr ?b), snd (projr ?b))" by simp
  have f: "map_of (files ?w2) (fst (projr ?b)) = map_of (files (snd (projr ?b))) (fst (projr ?b))"
    by simp
  have a: "False \<or> Some ''YES'' = Some ''YES'' \<and> ascii_lower ''YES'' = ''yes''" by code_simp
  have t: "transport ?w2 (length (requests ?w2)) = Ok" by code_simp
  have r: "root (demo_world section_a) = section_a" by (simp add: demo_world_def)
  from backup_restore_roundtrip[where fn = "Some ''b.json''" and w = "demo_world section_a"
        and f = "fst (projr ?b)" and ?w1.0 = "snd (projr ?b)" and ?w2.0 = ?w2
        and confirm = False and lower = ascii_lower and answer = "Some ''YES''"
        and response = "''YES''"] run f a t
  have "\<exists>w3. restore_database ascii_lower (fst (projr ?b)) False (Some ''YES'') ?w2 = Inr w3
          \<and> root w3 = root (demo_world section_a)"
    by blast
  with r ok show ?thesis by auto
qed

section \<open>Reading a batch file\<close>







section \<open>Conflicts in a bulk import\<close>

lemma http_ok:
  "transport w (length (requests w)) = Ok \<Longrightarrow>
   http m p d w = (Ok, fst (serve m p d (log_request m p d w)), snd (serve m p d (log_request m p d w)))"
  by (simp add: http_def Let_def split: prod.splits)

lemma serve_fields [simp]:
  "transport (snd (serve m p d w)) = transport w"
  "requests (snd (serve m p d w)) = requests w"
  by (cases m; simp add: serve_def Let_def)+

lemma log_request_fields [simp]:
  "transport (log_request m p d w) = transport w"
  "requests (log_request m p d w) = requests w @ [(m, p, d)]"
  by (simp_all add: log_request_def)

lemma all_ok_step:
  assumes "all_ok w"
  shows "transport w (length (requests w)) = Ok"
    and "all_ok (snd (serve m p d (log_request m p d w)))"
  using assms by (auto simp: all_ok_def)

lemma upload_students_ok:
  "all_ok w \<Longrightarrow>
   \<exists>w'. upload_students sec ss n w = (Some (n + length ss), w')
       \<and> requests w' = requests w @ map (put_student sec) ss"
proof (induction ss arbitrary: n w)
  case Nil
  then show ?case by simp
next
  case (Cons s ss)
  let ?s = "s\<lparr>sections := [sec]\<rparr>"
  let ?w1 = "snd (serve PUT [''students'', int_str (ident ?s)] (student_json ?s)
                 (log_request PUT [''students'', int_str (ident ?s)] (student_json ?s) w))"
  from all_ok_step[OF Cons.prems] have t: "transport w (length (requests w)) = Ok" and ok1: "all_ok ?w1"
    by blast+
  from Cons.IH[OF ok1, of "n + 1"] obtain w' where
    "upload_students sec ss (n + 1) ?w1 = (Some (n + 1 + length ss), w')"
    "requests w' = requests ?w1 @ map (put_student sec) ss" by blast
  then show ?case
    using t by (auto simp add: http_ok Let_def put_student_def case_prod_beta)
qed

lemma check_existing_students_ok:
  assumes "all_ok w" "jget (root w) [''students''] = JObj kvs" "kvs \<noteq> []"
    and "\<forall>v \<in> set (admission_numbers kvs). hashable v"
  shows "\<exists>w1. check_existing_students lower choice students w
           = ((if filter (collides (map fst kvs) (admission_numbers kvs)) students = []
               then filter (\<lambda>s. \<not> collides (map fst kvs) (admission_numbers kvs) s) students
               else (case choice of
                       None \<Rightarrow> students
                     | Some answer \<Rightarrow>
                         if lower answer \<noteq> ''y'' then []
                         else filter (\<lambda>s. \<not> collides (map fst kvs) (admission_numbers kvs) s) students),
               filter (collides (map fst kvs) (admission_numbers kvs)) students), w1)
         \<and> root w1 = root w \<and> requests w1 = requests w @ [(GET, [''students''], JNull)] \<and> all_ok w1"
proof -
  let ?w1 = "snd (serve GET [''students''] JNull (log_request GET [''students''] JNull w))"
  from all_ok_step[OF assms(1)] have t: "transport w (length (requests w)) = Ok" and ok1: "all_ok ?w1"
    by blast+
  have s: "serve GET [''students''] JNull (log_request GET [''students''] JNull w)
             = (JObj kvs, log_request GET [''students''] JNull w)"
    using assms(2) by (simp add: serve_def del: jget.simps)
  show ?thesis
    using t assms(3,4) ok1 unfolding check_existing_students_def
    by (simp add: http_ok s Let_def del: jget.simps split: option.splits)
qed

text \<open>
  The upload of a non-empty list of students over a working network: the section
  record is written, then one record for each student.
\<close>

lemma upload_after_check:
  assumes chk: "check_existing_students lower choice students w = ((ups, conflicts), w1)"
    and ups: "ups \<noteq> []" and ok1: "all_ok w1"
  shows "\<exists>w' section_data.
           upload_section_to_firebase lower choice section_name students w = ((True, conflicts), w')
         \<and> requests w' = requests w1
              @ [(PUT, [''sections'', section_key_of lower section_name], section_data)]
              @ map (put_student section_name) ups"
proof -
  let ?data = "JObj
               [(''name'', JStr section_name),
                (''grade'', JStr ''XI''),
                (''student_count'', JNum (int (length ups))),
                (''created_at'', JStr ''2025-01-27''),
                (''updated_at'', JStr ''2025-01-27'')]"
  let ?p = "[''sections'', section_key_of lower section_name]"
  let ?w2 = "snd (serve PUT ?p ?data (log_request PUT ?p ?data w1))"
  from all_ok_step[OF ok1] have t1: "transport w1 (length (requests w1)) = Ok" and ok2: "all_ok ?w2"
    by blast+
  from upload_students_ok[OF ok2, of section_name ups 0] obtain w3 where
    up: "upload_students section_name ups 0 ?w2 = (Some (length ups), w3)"
    and r3: "requests w3 = requests ?w2 @ map (put_student section_name) ups" by auto
  from ups have pos: "0 < length ups" by simp
  have "upload_section_to_firebase lower choice section_name students w = ((True, conflicts), w3)"
    using chk ups t1 up pos
    by (simp add: upload_section_to_firebase_def Let_def http_ok case_prod_beta)
  moreover have "requests w3 = requests w1 @ [(PUT, ?p, ?data)] @ map (put_student section_name) ups"
    using r3 by simp
  ultimately show ?thesis by blast
qed



text \<open>
  When the prompt cannot be read, the handler of \<open>check_existing_students\<close> returns
  the whole batch, and every row of it is uploaded, the colliding ones too.
\<close>

lemma prompt_failure_uploads_whole_batch:
  assumes "\<forall>n \<ge> length (requests w). transport w n = Ok"
    and "jget (root w) [''students''] = JObj kvs" "kvs \<noteq> []"
    and "\<forall>v \<in> set (admission_numbers kvs). hashable v"
    and "filter (collides (map fst kvs) (admission_numbers kvs)) students \<noteq> []"
  shows "\<exists>w' section_data. upload_section_to_firebase lower None section_name students w
            = ((True, filter (collides (map fst kvs) (admission_numbers kvs)) students), w')
          \<and> requests w' = requests w
               @ [(GET, [''students''], JNull),
                  (PUT, [''sections'', section_key_of lower section_name], section_data)]
               @ map (put_student section_name) students"
proof -
  let ?conflicts = "filter (collides (map fst kvs) (admission_numbers kvs)) students"
  have ok: "all_ok w" using assms(1) by (simp add: all_ok_def)
  from check_existing_students_ok[OF ok assms(2,3,4), of lower None students] assms(5)
  obtain w1 where chk: "check_existing_students lower None students w = ((students, ?conflicts), w1)"
    and w1: "requests w1 = requests w @ [(GET, [''students''], JNull)]" "all_ok w1"
    by auto
  from assms(5) have ne: "students \<noteq> []" by auto
  from upload_after_check[OF chk ne w1(2), of section_name] w1(1)
  show ?thesis by auto
qed

section \<open>What the integrity validator checks\<close>

lemma map_of_None_iff_notin: "map_of d k = None \<longleftrightarrow> k \<notin> fst ` set d"
  by (simp add: map_of_eq_None_iff)

lemma check_student_result:
  assumes "check_student k v is = Inr is'"
  shows "(student_passes v \<and> is' = is)
       \<or> (\<not> student_passes v \<and>
            (is' = is @ [StudentMissingSections k] \<and> py_in ''sections'' v = Inr False
             \<or> is' = is @ [StudentSectionsNotArray k] \<or> is' = is @ [StudentEmptySections k]))"
proof (cases v)
  case (JObj d)
  show ?thesis
  proof (cases "map_of d ''sections''")
    case None
    then have "''sections'' \<notin> fst ` set d" by (simp add: map_of_None_iff_notin)
    with JObj None assms show ?thesis
      by (auto simp: check_student_def and_then_Inr student_passes_def split: if_splits)
  next
    case (Some x)
    then have "''sections'' \<in> fst ` set d" by (metis map_of_None_iff_notin option.distinct(1))
    with JObj Some assms show ?thesis
      by (cases x rule: is_list.cases; cases x)
         (auto simp: check_student_def and_then_Inr student_passes_def split: if_splits list.splits)
  qed
qed (use assms in \<open>auto simp: check_student_def and_then_Inr student_passes_def split: if_splits\<close>)

lemma check_students_result:
  "check_students items is = Inr is' \<Longrightarrow>
   \<exists>ext. is' = is @ ext \<and> (ext = [] \<longleftrightarrow> (\<forall>(k, v) \<in> set items. student_passes v))"
proof (induction items arbitrary: "is")
  case Nil
  then show ?case by simp
next
  case (Cons kv items)
  obtain k v where kv: "kv = (k, v)" by (cases kv)
  from Cons.prems kv obtain is1 where 1: "check_student k v is = Inr is1"
    and 2: "check_students items is1 = Inr is'"
    by (auto simp: and_then_Inr)
  from Cons.IH[OF 2] obtain ext where ext: "is' = is1 @ ext"
    "ext = [] \<longleftrightarrow> (\<forall>(k, v) \<in> set items. student_passes v)" by blast
  from check_student_result[OF 1] ext kv show ?case by auto
qed

lemma check_field_result:
  "check_field s v f is = Inr is' \<Longrightarrow>
   \<exists>ext. is' = is @ ext \<and> (ext = [] \<longleftrightarrow> py_in f v = Inr True)"
  by (auto simp: check_field_def and_then_Inr)

lemma check_section_result:
  assumes "check_section s v is = Inr is'"
  shows "\<exists>ext. is' = is @ ext \<and> (ext = [] \<longleftrightarrow> section_passes v)"
proof -
  from assms obtain is1 is2 where
    1: "check_field s v ''name'' is = Inr is1"
    and 2: "check_field s v ''students'' is1 = Inr is2"
    and 3: "check_field s v ''teachers'' is2 = Inr is'"
    by (auto simp: check_section_def and_then_Inr)
  from check_field_result[OF 1] check_field_result[OF 2] check_field_result[OF 3]
  show ?thesis by (auto simp: section_passes_def)
qed

lemma check_sections_result:
  "check_sections items is = Inr is' \<Longrightarrow>
   \<exists>ext. is' = is @ ext \<and> (ext = [] \<longleftrightarrow> (\<forall>(k, v) \<in> set items. section_passes v))"
proof (induction items arbitrary: "is")
  case Nil
  then show ?case by simp
next
  case (Cons kv items)
  obtain k v where kv: "kv = (k, v)" by (cases kv)
  from Cons.prems kv obtain is1 where 1: "check_section k v is = Inr is1"
    and 2: "check_sections items is1 = Inr is'"
    by (auto simp: and_then_Inr)
  from Cons.IH[OF 2] obtain ext where ext: "is' = is1 @ ext"
    "ext = [] \<longleftrightarrow> (\<forall>(k, v) \<in> set items. section_passes v)" by blast
  from check_section_result[OF 1] ext kv show ?case by auto
qed

text \<open>What \<open>validate_data_integrity\<close> has done when it returns.\<close>

lemma validate_steps:
  assumes "validate_data_integrity w = Inr ((ok, issues), w')"
  shows "\<exists>items is1. student_items (or_empty (jget (root w) [''students''])) = Inr items
           \<and> check_students items [] = Inr is1
           \<and> (case or_empty (jget (root w) [''sections'']) of
                 JObj kvs \<Rightarrow> check_sections kvs is1
               | _ \<Rightarrow> Inr is1) = Inr issues
           \<and> ok = (issues = []) \<and> root w' = root w"
proof -
  from assms obtain r1 w1 r2 w2 where
    g1: "make_request GET [''students''] JNull w = Inr (r1, w1)"
    and g2: "make_request GET [''sections''] JNull w1 = Inr (r2, w2)"
    and rest: "and_then (student_items (or_empty r1)) (\<lambda>items.
     and_then (check_students items []) (\<lambda>issues.
     and_then (case or_empty r2 of
                 JObj kvs \<Rightarrow> check_sections kvs issues
               | _ \<Rightarrow> Inr issues) (\<lambda>issues.
       Inr ((issues = [], issues), w2)))) = Inr ((ok, issues), w')"
    by (auto simp: validate_data_integrity_def and_then_Inr Let_def split: prod.splits)
  from g1 have r1: "r1 = jget (root w) [''students'']" "root w1 = root w"
    by (auto simp: make_request_Inr serve_GET)
  from g2 r1 have r2: "r2 = jget (root w) [''sections'']" "root w2 = root w"
    by (auto simp: make_request_Inr serve_GET)
  from rest r1 r2 show ?thesis
    by (auto simp: and_then_Inr simp del: jget.simps)
qed

text \<open>
  Claim C6, as amended. \<open>validate_data_integrity\<close> fails exactly when some student
  record is not a dict with a non-empty list under \<open>sections\<close>, or, the sections
  being a dict, some section record lacks \<open>name\<close>, \<open>students\<close> or \<open>teachers\<close>. It
  changes nothing in the store. It does not compare a student's sections with the
  sections' membership lists.
\<close>

theorem validator_checks_shapes_only:
  assumes "validate_data_integrity w = Inr ((ok, issues), w')"
    and "student_items (or_empty (jget (root w) [''students''])) = Inr items"
  shows "ok = (issues = []) \<and> root w' = root w
       \<and> (ok \<longleftrightarrow>
            (\<forall>(k, v) \<in> set items. student_passes v)
            \<and> (\<forall>kvs. or_empty (jget (root w) [''sections'']) = JObj kvs \<longrightarrow>
                  (\<forall>(k, v) \<in> set kvs. section_passes v)))"
proof -
  from validate_steps[OF assms(1)] assms(2) obtain is1 where
    st: "check_students items [] = Inr is1"
    and se: "(case or_empty (jget (root w) [''sections'']) of
                 JObj kvs \<Rightarrow> check_sections kvs is1
               | _ \<Rightarrow> Inr is1) = Inr issues"
    and ok: "ok = (issues = [])" and rt: "root w' = root w"
    by auto
  from check_students_result[OF st] have a: "is1 = [] \<longleftrightarrow> (\<forall>(k, v) \<in> set items. student_passes v)"
    by auto
  have b: "issues = [] \<longleftrightarrow> is1 = [] \<and> (\<forall>kvs. or_empty (jget (root w) [''sections'']) = JObj kvs \<longrightarrow>
                  (\<forall>(k, v) \<in> set kvs. section_passes v))"
  proof (cases "or_empty (jget (root w) [''sections''])")
    case (JObj kvs)
    with se have "check_sections kvs is1 = Inr issues" by simp
    from check_sections_result[OF this] JObj show ?thesis by auto
  qed (use se in auto)
  from ok rt a b show ?thesis by blast
qed

theorem validator_checks_shapes_only_witness:
  "\<not> isl (validate_data_integrity (demo_world dangling))
   \<and> student_items (or_empty (jget (root (demo_world dangling)) [''students'']))
       = Inr [(''s1'', JObj [(''name'', JStr ''Ann''), (''sections'', JList [JStr ''A''])])]
   \<and> fst (fst (projr (validate_data_integrity (demo_world dangling))))"
proof -
  let ?r = "validate_data_integrity (demo_world dangling)"
  let ?s1 = "JObj [(''name'', JStr ''Ann''), (''sections'', JList [JStr ''A''])]"
  let ?a = "JObj [(''name'', JStr ''A''), (''students'', JList []), (''teachers'', JList [])]"
  have ok: "\<not> isl ?r" by code_simp
  then have run: "?r = Inr ((fst (fst (projr ?r)), snd (fst (projr ?r))), snd (projr ?r))" by simp
  have items: "student_items (or_empty (jget (root (demo_world dangling)) [''students'']))
                 = Inr [(''s1'', ?s1)]"
    by code_simp
  have secs: "or_empty (jget (root (demo_world dangling)) [''sections'']) = JObj [(''A'', ?a)]"
    by code_simp
  have pass: "student_passes ?s1" "section_passes ?a"
    by code_simp+
  have all: "(\<forall>(k, v) \<in> set [(''s1'', ?s1)]. student_passes v)
            \<and> (\<forall>kvs. or_empty (jget (root (demo_world dangling)) [''sections'']) = JObj kvs \<longrightarrow>
                  (\<forall>(k, v) \<in> set kvs. section_passes v))"
    unfolding secs using pass by simp
  from validator_checks_shapes_only[OF run items] all
  have "fst (fst (projr ?r))" by blast
  with ok items show ?thesis by blast
qed

text \<open>
  Claim C6, as stated, fails: student \<open>s1\<close> has \<open>A\<close> in its sections, section \<open>A\<close>
  does not list \<open>s1\<close>, and the validator passes with no issue.
\<close>

theorem validator_misses_dangling_membership:
  "py_index (jget dangling [''students'', ''s1'']) ''sections'' = Inr (JList [JStr ''A''])
   \<and> section_list ''students'' dangling ''A'' = JList []
   \<and> \<not> isl (validate_data_integrity (demo_world dangling))
   \<and> fst (projr (validate_data_integrity (demo_world dangling))) = (True, [])"
  by code_simp

section \<open>Properties of the schema migrator\<close>

lemma migrated_record_fields:
  "map_of (migrated_record d ts) ''sections'' = Some (JList [old_section_of d])"
  "map_of (migrated_record d ts) ''updatedAt'' = Some (JStr ts)"
  "''section'' \<notin> fst ` set (migrated_record d ts)"
  by (simp_all add: migrated_record_def Let_def AList.update_conv' AList.delete_conv'
      AList.delete_notin_dom)

lemma already_migrated_dict: "already_migrated (JObj d) = Inr (has_sections_list d)"
proof (cases "map_of d ''sections''")
  case None
  then have "''sections'' \<notin> fst ` set d" by (simp add: map_of_None_iff_notin)
  with None show ?thesis by (simp add: already_migrated_def and_then_def has_sections_list_def)
next
  case (Some x)
  then have "''sections'' \<in> fst ` set d" by (metis map_of_None_iff_notin option.distinct(1))
  with Some show ?thesis
    by (cases x) (simp_all add: already_migrated_def and_then_def has_sections_list_def)
qed

text \<open>One round of the migration loop.\<close>

lemma migrate_student_cases:
  assumes "migrate_student k v (S, n, w) = Inr (S', n', w')"
  shows "\<exists>d. v = JObj d \<and>
          (has_sections_list d \<and> S' = S \<and> n' = n \<and> w' = w
           \<or> \<not> has_sections_list d \<and> hashable (old_section_of d)
             \<and> S' = set_add (old_section_of d) S \<and> n' = n + 1
             \<and> root w' = jput (root w) [''students'', k] (JObj (migrated_record d (isoformat w (tick w))))
             \<and> requests w' = requests w
                  @ [(PUT, [''students'', k], JObj (migrated_record d (isoformat w (tick w))))])"
proof (cases v)
  case (JObj d)
  show ?thesis
  proof (cases "has_sections_list d")
    case True
    with assms JObj show ?thesis
      by (simp add: migrate_student_def already_migrated_dict and_then_def)
  next
    case False
    with assms JObj show ?thesis
      by (auto simp: migrate_student_def already_migrated_dict and_then_Inr make_request_Inr
          serve_PUT log_request_def now_isoformat_def Let_def migrated_record_def old_section_of_def
          simp del: jput.simps split: if_splits)
  qed
qed (use assms in \<open>auto simp: migrate_student_def and_then_Inr already_migrated_def split: if_splits\<close>)


text \<open>The clock's readings are the same before and after a request and a round of the loop.\<close>

lemma make_request_clock:
  "make_request m p d w = Inr (r, w') \<Longrightarrow> isoformat w' = isoformat w"
  by (cases m) (auto simp: make_request_Inr serve_def log_request_def Let_def)

lemma migrate_student_clock:
  assumes "migrate_student k v (S, n, w) = Inr (S', n', w')"
  shows "isoformat w' = isoformat w"
proof (cases v)
  case (JObj d)
  show ?thesis
  proof (cases "has_sections_list d")
    case True
    with assms JObj show ?thesis
      by (simp add: migrate_student_def already_migrated_dict and_then_def)
  next
    case False
    with assms JObj obtain r rec where
      "make_request PUT [''students'', k] rec (snd (now_isoformat w)) = Inr (r, w')"
      by (auto simp: migrate_student_def already_migrated_dict and_then_Inr Let_def
          case_prod_beta split: if_splits)
    from make_request_clock[OF this] show ?thesis by (simp add: now_isoformat_def)
  qed
qed (use assms in \<open>auto simp: migrate_student_def and_then_Inr already_migrated_def split: if_splits\<close>)

text \<open>The loop sends one PUT for each record without a \<open>sections\<close> list, and nothing else.\<close>

lemma migrate_students_requests:
  "migrate_students items (S, n, w) = Inr (S', n', w') \<Longrightarrow>
   \<exists>rs. requests w' = requests w @ rs
      \<and> (\<forall>r \<in> set rs. \<exists>k d ts. r = (PUT, [''students'', k], JObj (migrated_record d ts))
             \<and> (k, JObj d) \<in> set items \<and> \<not> has_sections_list d)"
proof (induction items arbitrary: S n w)
  case Nil
  then show ?case by simp
next
  case (Cons kv items)
  obtain k v where kv: "kv = (k, v)" by (cases kv)
  from Cons.prems kv obtain S1 n1 w1 where
    step: "migrate_student k v (S, n, w) = Inr (S1, n1, w1)"
    and rest: "migrate_students items (S1, n1, w1) = Inr (S', n', w')"
    by (auto simp: and_then_Inr)
  from Cons.IH[OF rest] obtain rs where rs: "requests w' = requests w1 @ rs"
    "\<forall>r \<in> set rs. \<exists>k d ts. r = (PUT, [''students'', k], JObj (migrated_record d ts))
             \<and> (k, JObj d) \<in> set items \<and> \<not> has_sections_list d" by blast
  from migrate_student_cases[OF step] obtain d where d: "v = JObj d"
    and c: "has_sections_list d \<and> w1 = w
          \<or> \<not> has_sections_list d
            \<and> requests w1 = requests w
                 @ [(PUT, [''students'', k], JObj (migrated_record d (isoformat w (tick w))))]"
    by blast
  from c show ?case
  proof
    assume a: "has_sections_list d \<and> w1 = w"
    have "\<forall>r \<in> set rs. \<exists>k d ts. r = (PUT, [''students'', k], JObj (migrated_record d ts))
             \<and> (k, JObj d) \<in> set (kv # items) \<and> \<not> has_sections_list d"
      using rs(2) by fastforce
    with rs(1) a show ?thesis by (intro exI[of _ rs]) simp
  next
    assume a: "\<not> has_sections_list d
            \<and> requests w1 = requests w
                 @ [(PUT, [''students'', k], JObj (migrated_record d (isoformat w (tick w))))]"
    let ?r = "(PUT, [''students'', k], JObj (migrated_record d (isoformat w (tick w))))"
    have "\<exists>k' d' ts. ?r = (PUT, [''students'', k'], JObj (migrated_record d' ts))
             \<and> (k', JObj d') \<in> set (kv # items) \<and> \<not> has_sections_list d'"
      using a kv d by auto
    moreover have "\<forall>r \<in> set rs. \<exists>k d ts. r = (PUT, [''students'', k], JObj (migrated_record d ts))
             \<and> (k, JObj d) \<in> set (kv # items) \<and> \<not> has_sections_list d"
      using rs(2) by fastforce
    ultimately show ?thesis
      using rs(1) a by (intro exI[of _ "?r # rs"]) auto
  qed
qed

text \<open>The loop leaves alone what lies outside \<open>students\<close> and the records it does not write.\<close>

lemma migrate_students_frame:
  "migrate_students items (S, n, w) = Inr (S', n', w') \<Longrightarrow>
   c \<noteq> ''students'' \<Longrightarrow> jget (root w') (c # p) = jget (root w) (c # p)"
proof (induction items arbitrary: S n w)
  case Nil
  then show ?case by simp
next
  case (Cons kv items)
  obtain k v where kv: "kv = (k, v)" by (cases kv)
  from Cons.prems(1) kv obtain S1 n1 w1 where
    step: "migrate_student k v (S, n, w) = Inr (S1, n1, w1)"
    and rest: "migrate_students items (S1, n1, w1) = Inr (S', n', w')"
    by (auto simp: and_then_Inr)
  have "jget (jput (root w) ([] @ ''students'' # [k]) x) ([] @ c # p) = jget (root w) ([] @ c # p)" for x
    using Cons.prems(2) by (intro jget_jput_diverge) simp
  with migrate_student_cases[OF step] have "jget (root w1) (c # p) = jget (root w) (c # p)"
    by (auto simp del: jget.simps jput.simps)
  with Cons.IH[OF rest Cons.prems(2)] show ?case by (simp del: jget.simps)
qed

lemma migrate_students_frame_key:
  "migrate_students items (S, n, w) = Inr (S', n', w') \<Longrightarrow>
   \<forall>d. (k, JObj d) \<in> set items \<longrightarrow> has_sections_list d \<Longrightarrow>
   jget (root w') (''students'' # k # p) = jget (root w) (''students'' # k # p)"
proof (induction items arbitrary: S n w)
  case Nil
  then show ?case by simp
next
  case (Cons kv items)
  obtain k0 v where kv: "kv = (k0, v)" by (cases kv)
  from Cons.prems(1) kv obtain S1 n1 w1 where
    step: "migrate_student k0 v (S, n, w) = Inr (S1, n1, w1)"
    and rest: "migrate_students items (S1, n1, w1) = Inr (S', n', w')"
    by (auto simp: and_then_Inr)
  from Cons.prems(2) have rest_ok: "\<forall>d. (k, JObj d) \<in> set items \<longrightarrow> has_sections_list d" by simp
  have div: "jget (jput (root w) ([''students''] @ k0 # []) x) ([''students''] @ k # p)
           = jget (root w) ([''students''] @ k # p)" if "k0 \<noteq> k" for x
    using that by (intro jget_jput_diverge)
  from migrate_student_cases[OF step] obtain d where d: "v = JObj d"
    and c: "has_sections_list d \<and> w1 = w
          \<or> \<not> has_sections_list d
            \<and> root w1 = jput (root w) [''students'', k0] (JObj (migrated_record d (isoformat w (tick w))))"
    by blast
  have "jget (root w1) (''students'' # k # p) = jget (root w) (''students'' # k # p)"
  proof (cases "has_sections_list d")
    case True
    with c show ?thesis by simp
  next
    case False
    with Cons.prems(2) kv d have "k0 \<noteq> k" by auto
    with c False div show ?thesis by (simp del: jget.simps jput.simps)
  qed
  with Cons.IH[OF rest rest_ok] show ?case by (simp del: jget.simps)
qed

text \<open>With distinct keys, a record without a \<open>sections\<close> list ends as its migrated form.\<close>

lemma migrate_students_written:
  "migrate_students items (S, n, w) = Inr (S', n', w') \<Longrightarrow> distinct (map fst items) \<Longrightarrow>
   (k, JObj d) \<in> set items \<Longrightarrow> \<not> has_sections_list d \<Longrightarrow>
   \<exists>i. jget (root w') [''students'', k] = JObj (migrated_record d (isoformat w i))"
proof (induction items arbitrary: S n w)
  case Nil
  then show ?case by simp
next
  case (Cons kv items)
  obtain k0 v where kv: "kv = (k0, v)" by (cases kv)
  from Cons.prems(1) kv obtain S1 n1 w1 where
    step: "migrate_student k0 v (S, n, w) = Inr (S1, n1, w1)"
    and rest: "migrate_students items (S1, n1, w1) = Inr (S', n', w')"
    by (auto simp: and_then_Inr)
  from Cons.prems(2) kv have dist: "distinct (map fst items)" and fresh: "k0 \<notin> fst ` set items"
    by auto
  show ?case
  proof (cases "(k, JObj d) \<in> set items")
    case True
    from Cons.IH[OF rest dist True Cons.prems(4)] migrate_student_clock[OF step]
    show ?thesis by simp
  next
    case False
    with Cons.prems(3) kv have hd: "k0 = k" "v = JObj d" by auto
    from migrate_student_cases[OF step] hd Cons.prems(4)
    have "root w1 = jput (root w) [''students'', k] (JObj (migrated_record d (isoformat w (tick w))))"
      by auto
    then have "jget (root w1) [''students'', k] = JObj (migrated_record d (isoformat w (tick w)))"
      by (simp only: jget_jput_same)
    moreover from fresh hd have "\<forall>d. (k, JObj d) \<in> set items \<longrightarrow> has_sections_list d"
      by (auto simp: image_iff)
    from migrate_students_frame_key[OF rest this, of "[]"]
    have "jget (root w') [''students'', k] = jget (root w1) [''students'', k]" .
    ultimately have "jget (root w') [''students'', k]
        = JObj (migrated_record d (isoformat w (tick w)))" by simp
    then show ?thesis by (rule exI)
  qed
qed

text \<open>What the loop collects in \<open>sections_to_create\<close>.\<close>

lemma set_add_props:
  "set S \<subseteq> set (set_add x S)"
  "set_key x \<in> set_key ` set (set_add x S)"
  "set (set_add x S) \<subseteq> insert x (set S)"
  "distinct (map set_key S) \<Longrightarrow> distinct (map set_key (set_add x S))"
  by (auto simp: set_add_def)

lemma migrate_students_collected:
  "migrate_students items (S, n, w) = Inr (S', n', w') \<Longrightarrow>
   set S \<subseteq> set S'
   \<and> (\<forall>k d. (k, JObj d) \<in> set items \<and> \<not> has_sections_list d
         \<longrightarrow> set_key (old_section_of d) \<in> set_key ` set S')
   \<and> (\<forall>x \<in> set S'. x \<in> set S
         \<or> (\<exists>k d. (k, JObj d) \<in> set items \<and> \<not> has_sections_list d \<and> x = old_section_of d))
   \<and> (distinct (map set_key S) \<longrightarrow> distinct (map set_key S'))"
proof (induction items arbitrary: S n w)
  case Nil
  then show ?case by simp
next
  case (Cons kv items)
  obtain k0 v where kv: "kv = (k0, v)" by (cases kv)
  from Cons.prems(1) kv obtain S1 n1 w1 where
    step: "migrate_student k0 v (S, n, w) = Inr (S1, n1, w1)"
    and rest: "migrate_students items (S1, n1, w1) = Inr (S', n', w')"
    by (auto simp: and_then_Inr)
  note IH = Cons.IH[OF rest]
  from migrate_student_cases[OF step] obtain d where d: "v = JObj d"
    and c: "has_sections_list d \<and> S1 = S
          \<or> \<not> has_sections_list d \<and> S1 = set_add (old_section_of d) S"
    by blast
  from c show ?case
  proof
    assume a: "has_sections_list d \<and> S1 = S"
    from IH a have 1: "set S \<subseteq> set S'" by simp
    have 2: "\<forall>k d. (k, JObj d) \<in> set (kv # items) \<and> \<not> has_sections_list d
         \<longrightarrow> set_key (old_section_of d) \<in> set_key ` set S'"
      using IH a kv d by auto
    have 3: "\<forall>x \<in> set S'. x \<in> set S
         \<or> (\<exists>k d. (k, JObj d) \<in> set (kv # items) \<and> \<not> has_sections_list d \<and> x = old_section_of d)"
    proof
      fix x assume "x \<in> set S'"
      with IH a have "x \<in> set S
         \<or> (\<exists>k d. (k, JObj d) \<in> set items \<and> \<not> has_sections_list d \<and> x = old_section_of d)"
        by blast
      then show "x \<in> set S
         \<or> (\<exists>k d. (k, JObj d) \<in> set (kv # items) \<and> \<not> has_sections_list d \<and> x = old_section_of d)"
        by auto
    qed
    have 4: "distinct (map set_key S) \<longrightarrow> distinct (map set_key S')"
      using IH a by blast
    from 1 2 3 4 show ?thesis by blast
  next
    assume a: "\<not> has_sections_list d \<and> S1 = set_add (old_section_of d) S"
    have 1: "set S \<subseteq> set S'"
      using IH a set_add_props(1)[of S "old_section_of d"] by auto
    have 2: "\<forall>k d. (k, JObj d) \<in> set (kv # items) \<and> \<not> has_sections_list d
         \<longrightarrow> set_key (old_section_of d) \<in> set_key ` set S'"
    proof (intro allI impI)
      fix k d' assume h: "(k, JObj d') \<in> set (kv # items) \<and> \<not> has_sections_list d'"
      show "set_key (old_section_of d') \<in> set_key ` set S'"
      proof (cases "(k, JObj d') \<in> set items")
        case True
        with IH h show ?thesis by blast
      next
        case False
        with h kv d have "d' = d" by auto
        moreover have "set_key (old_section_of d) \<in> set_key ` set S1"
          using a set_add_props(2) by simp
        moreover have "set S1 \<subseteq> set S'" using IH by blast
        ultimately show ?thesis by blast
      qed
    qed
    have 3: "\<forall>x \<in> set S'. x \<in> set S
         \<or> (\<exists>k d. (k, JObj d) \<in> set (kv # items) \<and> \<not> has_sections_list d \<and> x = old_section_of d)"
    proof
      fix x assume "x \<in> set S'"
      with IH have "x \<in> set S1
         \<or> (\<exists>k d. (k, JObj d) \<in> set items \<and> \<not> has_sections_list d \<and> x = old_section_of d)"
        by blast
      moreover have "set S1 \<subseteq> insert (old_section_of d) (set S)"
        using a set_add_props(3) by simp
      ultimately show "x \<in> set S
         \<or> (\<exists>k d. (k, JObj d) \<in> set (kv # items) \<and> \<not> has_sections_list d \<and> x = old_section_of d)"
        using a kv d by auto
    qed
    have 4: "distinct (map set_key S) \<longrightarrow> distinct (map set_key S')"
      using IH a set_add_props(4) by blast
    from 1 2 3 4 show ?thesis by blast
  qed
qed


text \<open>Creating the sections: one POST for each name that is not empty and not \<open>default\<close>.\<close>

lemma create_section_result:
  assumes "create_section nm w = Inr (sid, w1)"
  shows "\<exists>data k. requests w1 = requests w @ [(POST, [''sections''], data)]
           \<and> child data ''name'' = nm
           \<and> root w1 = jput (root w) [''sections'', k] data"
  using assms
  by (auto simp: create_section_def and_then_Inr make_request_Inr serve_POST log_request_def
      now_isoformat_def Let_def simp del: jput.simps split: prod.splits)

lemma posted_names_append [simp]: "posted_names (xs @ ys) = posted_names xs @ posted_names ys"
  by (simp add: posted_names_def)

lemma create_sections_result:
  "create_sections names w = Inr w' \<Longrightarrow>
   (\<forall>c p. c \<noteq> ''sections'' \<longrightarrow> jget (root w') (c # p) = jget (root w) (c # p))
   \<and> (\<exists>rs. requests w' = requests w @ rs
         \<and> (\<forall>(m, p, d) \<in> set rs. m = POST \<and> p = [''sections''])
         \<and> posted_names rs = filter (\<lambda>nm. truthy nm \<and> nm \<noteq> JStr ''default'') names)"
proof (induction names arbitrary: w)
  case Nil
  then show ?case by (simp add: posted_names_def)
next
  case (Cons nm names)
  show ?case
  proof (cases "truthy nm \<and> nm \<noteq> JStr ''default''")
    case False
    with Cons.prems have "create_sections names w = Inr w'" by auto
    from Cons.IH[OF this] False show ?thesis by auto
  next
    case True
    with Cons.prems obtain sid w1 where
      1: "create_section nm w = Inr (sid, w1)" and 2: "create_sections names w1 = Inr w'"
      by (auto simp: and_then_Inr)
    from create_section_result[OF 1] obtain data k where
      r1: "requests w1 = requests w @ [(POST, [''sections''], data)]"
      and nm: "child data ''name'' = nm"
      and rt: "root w1 = jput (root w) [''sections'', k] data" by blast
    from Cons.IH[OF 2] obtain rs where
      fr: "\<forall>c p. c \<noteq> ''sections'' \<longrightarrow> jget (root w') (c # p) = jget (root w1) (c # p)"
      and rs: "requests w' = requests w1 @ rs"
        "\<forall>(m, p, d) \<in> set rs. m = POST \<and> p = [''sections'']"
        "posted_names rs = filter (\<lambda>nm. truthy nm \<and> nm \<noteq> JStr ''default'') names"
      by blast
    have a: "\<forall>c p. c \<noteq> ''sections'' \<longrightarrow> jget (root w') (c # p) = jget (root w) (c # p)"
    proof (intro allI impI)
      fix c p assume c: "c \<noteq> ''sections''"
      have "jget (jput (root w) ([] @ ''sections'' # [k]) data) ([] @ c # p) = jget (root w) ([] @ c # p)"
        using c by (intro jget_jput_diverge) simp
      with fr c rt show "jget (root w') (c # p) = jget (root w) (c # p)"
        by (simp del: jget.simps jput.simps)
    qed
    have b: "posted_names ((POST, [''sections''], data) # rs)
               = filter (\<lambda>nm. truthy nm \<and> nm \<noteq> JStr ''default'') (nm # names)"
      using True nm rs(3) by (simp add: posted_names_def)
    have "requests w' = requests w @ (POST, [''sections''], data) # rs
         \<and> (\<forall>(m, p, d) \<in> set ((POST, [''sections''], data) # rs). m = POST \<and> p = [''sections''])"
      using rs(1,2) r1 by simp
    with a b show ?thesis by blast
  qed
qed

text \<open>What \<open>migrate_to_multisection\<close> has done when it returns.\<close>

lemma backup_database_result:
  "backup_database fn w = Inr (f, w') \<Longrightarrow>
   root w' = root w \<and> requests w' = requests w @ [(GET, [], JNull)]
   \<and> map_of (files w') f = Some (root w) \<and> isoformat w' = isoformat w"
  by (auto simp: backup_database_def and_then_Inr make_request_Inr serve_GET log_request_def
      Let_def now_strftime_def AList.update_conv' split: option.splits if_splits prod.splits)

lemma migrate_steps:
  assumes "migrate_to_multisection w = Inr (b, w')"
  shows "\<exists>items S n w3 w4.
           student_items (or_empty (jget (root w) [''students''])) = Inr items
         \<and> root w3 = root w \<and> isoformat w3 = isoformat w
         \<and> requests w3 = requests w @ [(GET, [], JNull), (GET, [''students''], JNull)]
         \<and> migrate_students items ([], 0, w3) = Inr (S, n, w4)
         \<and> create_sections S w4 = Inr w' \<and> b"
proof -
  let ?w1 = "snd (now_strftime w)"
  from assms obtain x y items z where
    bk: "backup_database (Some (''pre_migration_backup_'' @ fst (now_strftime w) @ ''.json'')) ?w1 = Inr x"
    and g: "make_request GET [''students''] JNull (snd x) = Inr y"
    and it: "student_items (or_empty (fst y)) = Inr items"
    and lp: "migrate_students items ([], 0, snd y) = Inr z"
    and cs: "create_sections (fst z) (snd (snd z)) = Inr w'" and b: b
    by (auto simp: migrate_to_multisection_def and_then_Inr Let_def case_prod_beta)
  from backup_database_result[of _ ?w1 "fst x" "snd x"] bk
  have b2: "root (snd x) = root w" "requests (snd x) = requests w @ [(GET, [], JNull)]"
    "isoformat (snd x) = isoformat w"
    by (simp_all add: now_strftime_def)
  from g b2 have g3: "fst y = jget (root w) [''students'']" "root (snd y) = root w"
    "requests (snd y) = requests w @ [(GET, [], JNull), (GET, [''students''], JNull)]"
    using make_request_Inr[of GET "[''students'']" JNull "snd x" "fst y" "snd y"]
    by (auto simp: serve_GET log_request_def)
  from make_request_clock[of GET "[''students'']" JNull "snd x" "fst y" "snd y"] g b2(3)
  have c3: "isoformat (snd y) = isoformat w" by simp
  obtain S n w4 where z: "z = (S, n, w4)" by (cases z)
  from it g3(1) have 1: "student_items (or_empty (jget (root w) [''students''])) = Inr items"
    by simp
  from lp z have 2: "migrate_students items ([], 0, snd y) = Inr (S, n, w4)" by simp
  from cs z have 3: "create_sections S w4 = Inr w'" by simp
  from 1 g3(2,3) c3 2 3 b show ?thesis by blast
qed

text \<open>With distinct keys, an item of the collection is the record at its key.\<close>

lemma student_items_lookup:
  assumes "student_items (or_empty j) = Inr items" "distinct (map fst items)" "(k, v) \<in> set items"
  shows "child j k = v"
proof (cases j)
  case (JObj kvs)
  with assms have "items = kvs" by (auto simp: or_empty_def split: if_splits)
  with assms JObj show ?thesis by simp
next
  case (JList xs)
  show ?thesis
  proof (cases "xs = []")
    case True
    with JList assms show ?thesis by (simp add: or_empty_def)
  next
    case False
    with JList assms obtain i where "i < length xs" "k = dec i" "v = xs ! i"
      by (auto simp: or_empty_def set_zip)
    with JList show ?thesis by (simp add: list_index_dec)
  qed
qed (use assms in \<open>auto simp: or_empty_def split: if_splits\<close>)

lemma student_items_list_distinct:
  assumes "student_items (JList xs) = Inr items"
  shows "distinct (map fst items)"
proof -
  let ?L = "map fst (filter (\<lambda>(i, x). x \<noteq> JNull) (zip [0..<length xs] xs))"
  from assms have eq: "map fst items = map dec ?L"
    by (auto simp: case_prod_beta)
  have d: "distinct ?L"
    by (rule distinct_map_filter) simp
  have "distinct (map dec ?L)"
  proof (subst distinct_map, intro conjI)
    show "distinct ?L" by (rule d)
    show "inj_on dec (set ?L)" by (rule inj_onI) (rule dec_inj)
  qed
  with eq show ?thesis by (simp only:)
qed


lemma posted_names_puts:
  "\<forall>r \<in> set ps. \<exists>k d. r = (PUT, [''students'', k], d) \<Longrightarrow> posted_names ps = []"
  by (induction ps) (auto simp: posted_names_def)

text \<open>The requests of a migration run and what it collects.\<close>

lemma migrate_summary:
  assumes "migrate_to_multisection w = Inr (b, w')"
    and "student_items (or_empty (jget (root w) [''students''])) = Inr items"
  shows "\<exists>S ps cs.
      run_requests w w' = [(GET, [], JNull), (GET, [''students''], JNull)] @ ps @ cs
    \<and> (\<forall>r \<in> set ps. \<exists>k d ts. r = (PUT, [''students'', k], JObj (migrated_record d ts))
           \<and> (k, JObj d) \<in> set items \<and> \<not> has_sections_list d)
    \<and> (\<forall>(m, p, d) \<in> set cs. m = POST \<and> p = [''sections''])
    \<and> posted_names cs = filter (\<lambda>nm. truthy nm \<and> nm \<noteq> JStr ''default'') S
    \<and> distinct (map set_key S)
    \<and> (\<forall>k d. (k, JObj d) \<in> set items \<and> \<not> has_sections_list d
          \<longrightarrow> set_key (old_section_of d) \<in> set_key ` set S)
    \<and> (\<forall>x \<in> set S. \<exists>k d. (k, JObj d) \<in> set items \<and> \<not> has_sections_list d
          \<and> x = old_section_of d)"
proof -
  from migrate_steps[OF assms(1)] assms(2) obtain S n w3 w4 where
    r3: "requests w3 = requests w @ [(GET, [], JNull), (GET, [''students''], JNull)]"
    and lp: "migrate_students items ([], 0, w3) = Inr (S, n, w4)"
    and cs: "create_sections S w4 = Inr w'"
    by auto
  from migrate_students_requests[OF lp] obtain ps where
    ps: "requests w4 = requests w3 @ ps"
      "\<forall>r \<in> set ps. \<exists>k d ts. r = (PUT, [''students'', k], JObj (migrated_record d ts))
           \<and> (k, JObj d) \<in> set items \<and> \<not> has_sections_list d" by blast
  from create_sections_result[OF cs] obtain rs where
    rs: "requests w' = requests w4 @ rs" "\<forall>(m, p, d) \<in> set rs. m = POST \<and> p = [''sections'']"
      "posted_names rs = filter (\<lambda>nm. truthy nm \<and> nm \<noteq> JStr ''default'') S" by blast
  have 1: "run_requests w w' = [(GET, [], JNull), (GET, [''students''], JNull)] @ ps @ rs"
    using r3 ps(1) rs(1) by (simp add: run_requests_def)
  from migrate_students_collected[OF lp]
  have 2: "distinct (map set_key S)"
    and 3: "\<forall>k d. (k, JObj d) \<in> set items \<and> \<not> has_sections_list d
          \<longrightarrow> set_key (old_section_of d) \<in> set_key ` set S"
    and 4: "\<forall>x \<in> set S. \<exists>k d. (k, JObj d) \<in> set items \<and> \<not> has_sections_list d
          \<and> x = old_section_of d"
    by auto
  from 1 ps(2) rs(2,3) 2 3 4 show ?thesis by blast
qed

text \<open>The student records after a migration run.\<close>

lemma migrate_store:
  assumes "migrate_to_multisection w = Inr (b, w')"
    and "student_items (or_empty (jget (root w) [''students''])) = Inr items"
  shows "distinct (map fst items) \<Longrightarrow> (k, JObj d) \<in> set items \<Longrightarrow> \<not> has_sections_list d \<Longrightarrow>
           \<exists>i. jget (root w') [''students'', k] = JObj (migrated_record d (isoformat w i))"
    and "\<forall>d. (k, JObj d) \<in> set items \<longrightarrow> has_sections_list d \<Longrightarrow>
           jget (root w') [''students'', k] = jget (root w) [''students'', k]"
proof -
  from migrate_steps[OF assms(1)] assms(2) obtain S n w3 w4 where
    r3: "root w3 = root w" and c3: "isoformat w3 = isoformat w"
    and lp: "migrate_students items ([], 0, w3) = Inr (S, n, w4)"
    and cs: "create_sections S w4 = Inr w'"
    by auto
  from create_sections_result[OF cs]
  have "\<forall>c p. c \<noteq> ''sections'' \<longrightarrow> jget (root w') (c # p) = jget (root w4) (c # p)" by blast
  then have fr: "jget (root w') [''students'', k] = jget (root w4) [''students'', k]"
    by (simp del: jget.simps)
  show "\<exists>i. jget (root w') [''students'', k] = JObj (migrated_record d (isoformat w i))"
    if "distinct (map fst items)" "(k, JObj d) \<in> set items" "\<not> has_sections_list d"
    using migrate_students_written[OF lp that] fr c3 by simp
  show "jget (root w') [''students'', k] = jget (root w) [''students'', k]"
    if "\<forall>d. (k, JObj d) \<in> set items \<longrightarrow> has_sections_list d"
    using migrate_students_frame_key[OF lp that, of "[]"] fr r3 by simp
qed

lemma has_sections_list_iff: "has_sections_list d \<longleftrightarrow> (\<exists>xs. map_of d ''sections'' = Some (JList xs))"
  by (auto simp: has_sections_list_def split: option.splits json.splits)

text \<open>
  Claim C1. After a run of the migrator that returns, a legacy record (a dict with a
  string under \<open>section\<close> and no list under \<open>sections\<close>) is stored with \<open>sections\<close>
  equal to the one-element list of its old section, without a \<open>section\<close> field, and
  with a reading of the clock under \<open>updatedAt\<close>. The keys of the collection are distinct, as
  the keys of a dict and the indices of a list are.
\<close>

theorem migrate_legacy_record:
  assumes "migrate_to_multisection w = Inr (b, w')"
    and "student_items (or_empty (jget (root w) [''students''])) = Inr items"
    and "distinct (map fst items)"
    and "(k, JObj d) \<in> set items"
    and "map_of d ''section'' = Some (JStr a)"
    and "\<not> has_sections_list d"
  shows "\<exists>r i. jget (root w') [''students'', k] = JObj r
          \<and> map_of r ''sections'' = Some (JList [JStr a])
          \<and> ''section'' \<notin> fst ` set r
          \<and> map_of r ''updatedAt'' = Some (JStr (isoformat w i))"
proof -
  from migrate_store(1)[OF assms(1,2,3,4,6)] obtain i where
    "jget (root w') [''students'', k] = JObj (migrated_record d (isoformat w i))" by blast
  moreover from assms(5) have "old_section_of d = JStr a" by (simp add: old_section_of_def)
  ultimately show ?thesis
    using migrated_record_fields[of d "isoformat w i"]
    by (intro exI[of _ "migrated_record d (isoformat w i)"] exI[of _ i]) simp
qed

text \<open>
  Claim C2. A record whose \<open>sections\<close> is already a list is not written by a run of
  the migrator: the run's requests are reads, writes of other student records and
  posts of sections, and the record is afterwards what it was.
\<close>

theorem migrate_skips_migrated_record:
  assumes "migrate_to_multisection w = Inr (b, w')"
    and "student_items (or_empty (jget (root w) [''students''])) = Inr items"
    and "distinct (map fst items)"
    and "(k, JObj d) \<in> set items"
    and "map_of d ''sections'' = Some (JList xs)"
  shows "jget (root w') [''students'', k] = JObj d
       \<and> (\<forall>(m, p, data) \<in> set (run_requests w w').
             m = GET \<or> (m = PUT \<and> (\<exists>k'. p = [''students'', k'] \<and> k' \<noteq> k))
             \<or> (m = POST \<and> p = [''sections'']))"
proof -
  from assms(5) have has: "has_sections_list d" by (simp add: has_sections_list_def)
  have only: "d' = d" if "(k, JObj d') \<in> set items" for d'
    using that assms(3,4) by (metis eq_key_imp_eq_value json.inject(5))
  then have all: "\<forall>d. (k, JObj d) \<in> set items \<longrightarrow> has_sections_list d" using has by blast
  have "jget (root w') [''students'', k] = jget (root w) [''students'', k]"
    by (rule migrate_store(2)[OF assms(1,2) all])
  also have "\<dots> = child (jget (root w) [''students'']) k" by simp
  also have "\<dots> = JObj d" by (rule student_items_lookup[OF assms(2,3,4)])
  finally have 1: "jget (root w') [''students'', k] = JObj d" .
  from migrate_summary[OF assms(1,2)] obtain ps cs where
    rr: "run_requests w w' = [(GET, [], JNull), (GET, [''students''], JNull)] @ ps @ cs"
    and ps: "\<forall>r \<in> set ps. \<exists>k d ts. r = (PUT, [''students'', k], JObj (migrated_record d ts))
           \<and> (k, JObj d) \<in> set items \<and> \<not> has_sections_list d"
    and cs: "\<forall>(m, p, d) \<in> set cs. m = POST \<and> p = [''sections'']" by blast
  have 2: "\<forall>(m, p, data) \<in> set (run_requests w w').
             m = GET \<or> (m = PUT \<and> (\<exists>k'. p = [''students'', k'] \<and> k' \<noteq> k))
             \<or> (m = POST \<and> p = [''sections''])"
  proof (intro ballI)
    fix r assume r: "r \<in> set (run_requests w w')"
    obtain m p data where mpd: "r = (m, p, data)" by (cases r)
    from r mpd consider "m = GET" | "(m, p, data) \<in> set ps" | "(m, p, data) \<in> set cs"
      unfolding rr by auto
    then have "m = GET \<or> (m = PUT \<and> (\<exists>k'. p = [''students'', k'] \<and> k' \<noteq> k))
             \<or> (m = POST \<and> p = [''sections''])"
    proof cases
      case 1
      then show ?thesis by simp
    next
      case 2
      with ps obtain k' d' where "m = PUT" "p = [''students'', k']" "(k', JObj d') \<in> set items"
        "\<not> has_sections_list d'" by blast
      with all show ?thesis by blast
    next
      case 3
      with cs show ?thesis by blast
    qed
    with mpd show "case r of (m, p, data) \<Rightarrow>
             m = GET \<or> (m = PUT \<and> (\<exists>k'. p = [''students'', k'] \<and> k' \<noteq> k))
             \<or> (m = POST \<and> p = [''sections''])" by simp
  qed
  from 1 2 show ?thesis by blast
qed


text \<open>What the validator says about a dict without a \<open>sections\<close> list.\<close>

lemma check_student_dict:
  assumes "check_student k (JObj d) is = Inr is'"
  shows "''sections'' \<notin> fst ` set d \<Longrightarrow> is' = is @ [StudentMissingSections k]"
    and "map_of d ''sections'' = Some x \<Longrightarrow> \<not> is_list x \<Longrightarrow> is' = is @ [StudentSectionsNotArray k]"
proof -
  show "is' = is @ [StudentMissingSections k]" if "''sections'' \<notin> fst ` set d"
    using assms that by (simp add: check_student_def and_then_def)
  show "is' = is @ [StudentSectionsNotArray k]" if "map_of d ''sections'' = Some x" "\<not> is_list x"
  proof -
    from that(1) have "''sections'' \<in> fst ` set d" by (metis map_of_None_iff_notin option.distinct(1))
    with assms that show ?thesis by (simp add: check_student_def and_then_def)
  qed
qed

lemma check_students_flag:
  "check_students items is = Inr is' \<Longrightarrow> (k, v) \<in> set items \<Longrightarrow>
   \<forall>is0 is1. check_student k v is0 = Inr is1 \<longrightarrow> i \<in> set is1 \<Longrightarrow> i \<in> set is'"
proof (induction items arbitrary: "is")
  case Nil
  then show ?case by simp
next
  case (Cons kv items)
  obtain k0 v0 where kv: "kv = (k0, v0)" by (cases kv)
  from Cons.prems(1) kv obtain is1 where 1: "check_student k0 v0 is = Inr is1"
    and 2: "check_students items is1 = Inr is'"
    by (auto simp: and_then_Inr)
  show ?case
  proof (cases "(k, v) \<in> set items")
    case True
    from Cons.IH[OF 2 True Cons.prems(3)] show ?thesis .
  next
    case False
    with Cons.prems(2) kv have "k0 = k" "v0 = v" by auto
    with 1 Cons.prems(3) have "i \<in> set is1" by blast
    moreover from check_students_result[OF 2] have "set is1 \<subseteq> set is'" by auto
    ultimately show ?thesis by blast
  qed
qed

lemma validate_flags:
  assumes "validate_data_integrity w = Inr ((ok, issues), w')"
    and "student_items (or_empty (jget (root w) [''students''])) = Inr items"
    and "(k, v) \<in> set items"
    and "\<forall>is0 is1. check_student k v is0 = Inr is1 \<longrightarrow> i \<in> set is1"
  shows "\<not> ok \<and> i \<in> set issues"
proof -
  from validate_steps[OF assms(1)] assms(2) obtain is1 where
    st: "check_students items [] = Inr is1"
    and se: "(case or_empty (jget (root w) [''sections'']) of
                 JObj kvs \<Rightarrow> check_sections kvs is1
               | _ \<Rightarrow> Inr is1) = Inr issues"
    and ok: "ok = (issues = [])"
    by auto
  from check_students_flag[OF st assms(3,4)] have "i \<in> set is1" .
  moreover have "set is1 \<subseteq> set issues"
  proof (cases "or_empty (jget (root w) [''sections''])")
    case (JObj kvs)
    with se have "check_sections kvs is1 = Inr issues" by simp
    from check_sections_result[OF this] show ?thesis by auto
  qed (use se in auto)
  ultimately show ?thesis using ok by auto
qed

text \<open>
  Claim C3, as amended. A student record with neither \<open>section\<close> nor \<open>sections\<close>, or
  with a \<open>sections\<close> that is not a list, is reported by the validator, which fails with
  the issue "missing sections" or "sections is not an array" for it. The migrator
  has no class of malformed records: a record with neither field is converted like a
  legacy one, to \<open>sections = ["default"]\<close>.
\<close>

theorem malformed_record_defaulted_and_flagged:
  assumes "student_items (or_empty (jget (root w) [''students''])) = Inr items"
    and "distinct (map fst items)"
    and "(k, JObj d) \<in> set items"
  shows "(''sections'' \<notin> fst ` set d \<and> ''section'' \<notin> fst ` set d \<longrightarrow>
            (\<forall>b w'. migrate_to_multisection w = Inr (b, w') \<longrightarrow>
               (\<exists>r. jget (root w') [''students'', k] = JObj r
                  \<and> map_of r ''sections'' = Some (JList [JStr ''default'']))))
       \<and> ((''sections'' \<notin> fst ` set d \<and> ''section'' \<notin> fst ` set d)
            \<or> (\<exists>x. map_of d ''sections'' = Some x \<and> \<not> is_list x) \<longrightarrow>
            (\<forall>ok issues w'. validate_data_integrity w = Inr ((ok, issues), w') \<longrightarrow>
               \<not> ok \<and> (if ''sections'' \<in> fst ` set d then StudentSectionsNotArray k
                        else StudentMissingSections k) \<in> set issues))"
proof (intro conjI allI impI)
  fix b w'
  assume bare: "''sections'' \<notin> fst ` set d \<and> ''section'' \<notin> fst ` set d"
    and run: "migrate_to_multisection w = Inr (b, w')"
  from bare have none: "map_of d ''sections'' = None" "map_of d ''section'' = None"
    by (simp_all add: map_of_None_iff_notin)
  then have nl: "\<not> has_sections_list d" and old: "old_section_of d = JStr ''default''"
    by (simp_all add: has_sections_list_def old_section_of_def)
  from migrate_store(1)[OF run assms(1,2,3) nl] obtain ts where
    "jget (root w') [''students'', k] = JObj (migrated_record d ts)" by blast
  then show "\<exists>r. jget (root w') [''students'', k] = JObj r
               \<and> map_of r ''sections'' = Some (JList [JStr ''default''])"
    using migrated_record_fields(1)[of d ts] old by simp
next
  fix ok issues w'
  assume mal: "(''sections'' \<notin> fst ` set d \<and> ''section'' \<notin> fst ` set d)
            \<or> (\<exists>x. map_of d ''sections'' = Some x \<and> \<not> is_list x)"
    and run: "validate_data_integrity w = Inr ((ok, issues), w')"
  let ?i = "if ''sections'' \<in> fst ` set d then StudentSectionsNotArray k else StudentMissingSections k"
  have "?i \<in> set is1" if c: "check_student k (JObj d) is0 = Inr is1" for is0 is1
  proof (cases "''sections'' \<in> fst ` set d")
    case True
    with mal obtain x where "map_of d ''sections'' = Some x" "\<not> is_list x" by blast
    from check_student_dict(2)[OF c this] True show ?thesis by simp
  next
    case False
    from check_student_dict(1)[OF c False] False show ?thesis by simp
  qed
  then have "\<forall>is0 is1. check_student k (JObj d) is0 = Inr is1 \<longrightarrow> ?i \<in> set is1" by blast
  from validate_flags[OF run assms(1,3) this]
  show "\<not> ok" and "?i \<in> set issues" by blast+
qed

lemma set_key_JStr: "set_key x = JStr a \<longleftrightarrow> x = JStr a"
  by (cases x) auto

text \<open>
  Claim C8, as amended. A run of the migrator posts a new section record for every
  string it collected as a legacy section that is not empty and not \<open>default\<close>,
  whatever sections exist already; it posts nothing else, and each name once.
\<close>

theorem migrate_posts_collected_sections:
  assumes "migrate_to_multisection w = Inr (b, w')"
    and "student_items (or_empty (jget (root w) [''students''])) = Inr items"
  shows "(\<forall>k d a. (k, JObj d) \<in> set items \<and> \<not> has_sections_list d
            \<and> old_section_of d = JStr a \<and> a \<noteq> [] \<and> a \<noteq> ''default''
            \<longrightarrow> JStr a \<in> set (posted_names (run_requests w w')))
       \<and> (\<forall>nm \<in> set (posted_names (run_requests w w')).
            truthy nm \<and> nm \<noteq> JStr ''default''
            \<and> (\<exists>k d. (k, JObj d) \<in> set items \<and> \<not> has_sections_list d \<and> old_section_of d = nm))
       \<and> distinct (posted_names (run_requests w w'))"
proof -
  from migrate_summary[OF assms] obtain S ps cs where
    rr: "run_requests w w' = [(GET, [], JNull), (GET, [''students''], JNull)] @ ps @ cs"
    and ps: "\<forall>r \<in> set ps. \<exists>k d ts. r = (PUT, [''students'', k], JObj (migrated_record d ts))
           \<and> (k, JObj d) \<in> set items \<and> \<not> has_sections_list d"
    and pn: "posted_names cs = filter (\<lambda>nm. truthy nm \<and> nm \<noteq> JStr ''default'') S"
    and dist: "distinct (map set_key S)"
    and coll: "\<forall>k d. (k, JObj d) \<in> set items \<and> \<not> has_sections_list d
          \<longrightarrow> set_key (old_section_of d) \<in> set_key ` set S"
    and from_items: "\<forall>x \<in> set S. \<exists>k d. (k, JObj d) \<in> set items \<and> \<not> has_sections_list d
          \<and> x = old_section_of d"
    by blast
  from ps have "posted_names ps = []" by (intro posted_names_puts) blast
  with rr pn have names: "posted_names (run_requests w w')
      = filter (\<lambda>nm. truthy nm \<and> nm \<noteq> JStr ''default'') S"
    by (simp add: posted_names_def)
  have 1: "\<forall>k d a. (k, JObj d) \<in> set items \<and> \<not> has_sections_list d
            \<and> old_section_of d = JStr a \<and> a \<noteq> [] \<and> a \<noteq> ''default''
            \<longrightarrow> JStr a \<in> set (posted_names (run_requests w w'))"
  proof (intro allI impI)
    fix k d a assume h: "(k, JObj d) \<in> set items \<and> \<not> has_sections_list d
            \<and> old_section_of d = JStr a \<and> a \<noteq> [] \<and> a \<noteq> ''default''"
    with coll have "set_key (JStr a) \<in> set_key ` set S" by metis
    then obtain x where "x \<in> set S" "set_key x = JStr a" by auto
    then have "JStr a \<in> set S" by (simp add: set_key_JStr)
    with h show "JStr a \<in> set (posted_names (run_requests w w'))"
      unfolding names by simp
  qed
  have 2: "\<forall>nm \<in> set (posted_names (run_requests w w')).
            truthy nm \<and> nm \<noteq> JStr ''default''
            \<and> (\<exists>k d. (k, JObj d) \<in> set items \<and> \<not> has_sections_list d \<and> old_section_of d = nm)"
  proof (intro ballI)
    fix nm assume "nm \<in> set (posted_names (run_requests w w'))"
    then have nm: "nm \<in> set S" "truthy nm" "nm \<noteq> JStr ''default''"
      unfolding names by auto
    with from_items obtain k d where "(k, JObj d) \<in> set items" "\<not> has_sections_list d"
      "nm = old_section_of d" by blast
    with nm show "truthy nm \<and> nm \<noteq> JStr ''default''
            \<and> (\<exists>k d. (k, JObj d) \<in> set items \<and> \<not> has_sections_list d \<and> old_section_of d = nm)"
      by blast
  qed
  from dist have "distinct S" by (simp add: distinct_map)
  then have 3: "distinct (posted_names (run_requests w w'))"
    unfolding names by simp
  from 1 2 3 show ?thesis by blast
qed


theorem migrate_legacy_record_witness:
  "\<not> isl (migrate_to_multisection (demo_world legacy_tree))
   \<and> py_index (jget (root (snd (projr (migrate_to_multisection (demo_world legacy_tree)))))
        [''students'', ''s1'']) ''sections'' = Inr (JList [JStr ''A''])
   \<and> py_in ''section'' (jget (root (snd (projr (migrate_to_multisection (demo_world legacy_tree)))))
        [''students'', ''s1'']) = Inr False"
proof -
  let ?w = "demo_world legacy_tree"
  let ?r = "migrate_to_multisection ?w"
  let ?d = "[(''name'', JStr ''Ann''), (''section'', JStr ''A'')]"
  have ok: "\<not> isl ?r" by code_simp
  then have run: "?r = Inr (fst (projr ?r), snd (projr ?r))" by simp
  have items: "student_items (or_empty (jget (root ?w) [''students''])) = Inr legacy_items"
    by code_simp
  have dist: "distinct (map fst legacy_items)" by code_simp
  have mem: "(''s1'', JObj ?d) \<in> set legacy_items" by code_simp
  have sec: "map_of ?d ''section'' = Some (JStr ''A'')" by simp
  have nl: "\<not> has_sections_list ?d" by code_simp
  from migrate_legacy_record[OF run items dist mem sec nl] obtain r ts where
    "jget (root (snd (projr ?r))) [''students'', ''s1''] = JObj r"
    "map_of r ''sections'' = Some (JList [JStr ''A''])" "''section'' \<notin> fst ` set r"
    by blast
  then have "py_index (jget (root (snd (projr ?r))) [''students'', ''s1'']) ''sections''
               = Inr (JList [JStr ''A''])"
    "py_in ''section'' (jget (root (snd (projr ?r))) [''students'', ''s1'']) = Inr False"
    by (simp_all del: jget.simps)
  with ok show ?thesis by blast
qed

theorem migrate_skips_migrated_record_witness:
  "\<not> isl (migrate_to_multisection (demo_world legacy_tree))
   \<and> jget (root (snd (projr (migrate_to_multisection (demo_world legacy_tree)))))
        [''students'', ''s2''] = JObj [(''name'', JStr ''Bob''), (''sections'', JList [JStr ''B''])]
   \<and> (PUT, [''students'', ''s2''])
        \<notin> set (map (\<lambda>(m, p, data). (m, p))
             (run_requests (demo_world legacy_tree)
                (snd (projr (migrate_to_multisection (demo_world legacy_tree))))))"
proof -
  let ?w = "demo_world legacy_tree"
  let ?r = "migrate_to_multisection ?w"
  let ?d = "[(''name'', JStr ''Bob''), (''sections'', JList [JStr ''B''])]"
  have ok: "\<not> isl ?r" by code_simp
  then have run: "?r = Inr (fst (projr ?r), snd (projr ?r))" by simp
  have items: "student_items (or_empty (jget (root ?w) [''students''])) = Inr legacy_items"
    by code_simp
  have dist: "distinct (map fst legacy_items)" by code_simp
  have mem: "(''s2'', JObj ?d) \<in> set legacy_items" by code_simp
  have sec: "map_of ?d ''sections'' = Some (JList [JStr ''B''])" by simp
  from migrate_skips_migrated_record[OF run items dist mem sec]
  have 1: "jget (root (snd (projr ?r))) [''students'', ''s2''] = JObj ?d"
    and 2: "\<forall>(m, p, data) \<in> set (run_requests ?w (snd (projr ?r))).
             m = GET \<or> (m = PUT \<and> (\<exists>k'. p = [''students'', k'] \<and> k' \<noteq> ''s2''))
             \<or> (m = POST \<and> p = [''sections''])"
    by blast+
  from 2 have "(PUT, [''students'', ''s2''])
        \<notin> set (map (\<lambda>(m, p, data). (m, p)) (run_requests ?w (snd (projr ?r))))"
    by fastforce
  with ok 1 show ?thesis by blast
qed

theorem malformed_record_defaulted_and_flagged_witness:
  "\<not> isl (migrate_to_multisection (demo_world bare_tree))
   \<and> py_index (jget (root (snd (projr (migrate_to_multisection (demo_world bare_tree)))))
        [''students'', ''s1'']) ''sections'' = Inr (JList [JStr ''default''])
   \<and> \<not> isl (validate_data_integrity (demo_world bare_tree))
   \<and> \<not> fst (fst (projr (validate_data_integrity (demo_world bare_tree))))
   \<and> StudentMissingSections ''s1''
        \<in> set (snd (fst (projr (validate_data_integrity (demo_world bare_tree)))))
   \<and> \<not> isl (validate_data_integrity (demo_world scalar_tree))
   \<and> \<not> fst (fst (projr (validate_data_integrity (demo_world scalar_tree))))
   \<and> StudentSectionsNotArray ''s1''
        \<in> set (snd (fst (projr (validate_data_integrity (demo_world scalar_tree)))))"
proof -
  let ?w = "demo_world bare_tree"
  let ?r = "migrate_to_multisection ?w"
  let ?v = "validate_data_integrity ?w"
  let ?d = "[(''name'', JStr ''Ann'')]"
  let ?w2 = "demo_world scalar_tree"
  let ?v2 = "validate_data_integrity ?w2"
  let ?d2 = "[(''name'', JStr ''Ann''), (''sections'', JStr ''A'')]"
  have ok: "\<not> isl ?r" by code_simp
  then have run: "?r = Inr (fst (projr ?r), snd (projr ?r))" by simp
  have okv: "\<not> isl ?v" by code_simp
  then have runv: "?v = Inr ((fst (fst (projr ?v)), snd (fst (projr ?v))), snd (projr ?v))" by simp
  have okv2: "\<not> isl ?v2" by code_simp
  then have runv2: "?v2 = Inr ((fst (fst (projr ?v2)), snd (fst (projr ?v2))), snd (projr ?v2))"
    by simp
  have items: "student_items (or_empty (jget (root ?w) [''students''])) = Inr [(''s1'', JObj ?d)]"
    by code_simp
  have items2: "student_items (or_empty (jget (root ?w2) [''students''])) = Inr scalar_items"
    by code_simp
  have dist: "distinct (map fst [(''s1'', JObj ?d)])" "distinct (map fst scalar_items)"
    by code_simp+
  have mem: "(''s1'', JObj ?d) \<in> set [(''s1'', JObj ?d)]" by simp
  have mem2: "(''s1'', JObj ?d2) \<in> set scalar_items" by code_simp
  have bare: "''sections'' \<notin> fst ` set ?d \<and> ''section'' \<notin> fst ` set ?d" by simp
  have scalar: "(''sections'' \<notin> fst ` set ?d2 \<and> ''section'' \<notin> fst ` set ?d2)
         \<or> (\<exists>x. map_of ?d2 ''sections'' = Some x \<and> \<not> is_list x)" by simp
  note inst = malformed_record_defaulted_and_flagged[OF items dist(1) mem]
  note inst2 = malformed_record_defaulted_and_flagged[OF items2 dist(2) mem2]
  from inst bare run obtain r where
    "jget (root (snd (projr ?r))) [''students'', ''s1''] = JObj r"
    "map_of r ''sections'' = Some (JList [JStr ''default''])"
    by blast
  then have 1: "py_index (jget (root (snd (projr ?r))) [''students'', ''s1'']) ''sections''
               = Inr (JList [JStr ''default''])"
    by (simp del: jget.simps)
  from inst bare runv have 2: "\<not> fst (fst (projr ?v))"
    "(if ''sections'' \<in> fst ` set ?d then StudentSectionsNotArray ''s1''
      else StudentMissingSections ''s1'') \<in> set (snd (fst (projr ?v)))"
    by blast+
  from 2(2) have 3: "StudentMissingSections ''s1'' \<in> set (snd (fst (projr ?v)))" by simp
  from inst2 scalar runv2 have 4: "\<not> fst (fst (projr ?v2))"
    "(if ''sections'' \<in> fst ` set ?d2 then StudentSectionsNotArray ''s1''
      else StudentMissingSections ''s1'') \<in> set (snd (fst (projr ?v2)))"
    by blast+
  from 4(2) have 5: "StudentSectionsNotArray ''s1'' \<in> set (snd (fst (projr ?v2)))" by simp
  from ok 1 okv 2(1) 3 okv2 4(1) 5 show ?thesis by blast
qed

text \<open>
  Claim C3, as stated, fails: the record \<open>s1\<close> has neither \<open>section\<close> nor
  \<open>sections\<close>, and the migrator stores it with \<open>sections = ["default"]\<close>.
\<close>

theorem migrator_invents_default_section:
  "py_in ''section'' (jget bare_tree [''students'', ''s1'']) = Inr False
   \<and> py_in ''sections'' (jget bare_tree [''students'', ''s1'']) = Inr False
   \<and> \<not> isl (migrate_to_multisection (demo_world bare_tree))
   \<and> py_index (jget (root (snd (projr (migrate_to_multisection (demo_world bare_tree)))))
        [''students'', ''s1'']) ''sections'' = Inr (JList [JStr ''default''])"
  by code_simp

theorem migrate_posts_collected_sections_witness:
  "\<not> isl (migrate_to_multisection (demo_world legacy_tree))
   \<and> JStr ''A'' \<in> set (posted_names (run_requests (demo_world legacy_tree)
        (snd (projr (migrate_to_multisection (demo_world legacy_tree))))))"
proof -
  let ?w = "demo_world legacy_tree"
  let ?r = "migrate_to_multisection ?w"
  let ?d = "[(''name'', JStr ''Ann''), (''section'', JStr ''A'')]"
  have ok: "\<not> isl ?r" by code_simp
  then have run: "?r = Inr (fst (projr ?r), snd (projr ?r))" by simp
  have items: "student_items (or_empty (jget (root ?w) [''students''])) = Inr legacy_items"
    by code_simp
  have h: "(''s1'', JObj ?d) \<in> set legacy_items \<and> \<not> has_sections_list ?d
            \<and> old_section_of ?d = JStr ''A'' \<and> ''A'' \<noteq> [] \<and> ''A'' \<noteq> ''default''"
    by code_simp
  from migrate_posts_collected_sections[OF run items] h
  have "JStr ''A'' \<in> set (posted_names (run_requests ?w (snd (projr ?r))))" by blast
  with ok show ?thesis by blast
qed

text \<open>
  Claim C8, as stated, fails: a section with the slug \<open>a\<close> of the name \<open>A\<close> exists,
  and the run still posts a section named \<open>A\<close>, which is stored a second time under
  the key the server gives it.
\<close>

theorem migrate_creates_existing_section_again:
  "section_key_of ascii_lower ''A'' = ''a''
   \<and> py_index (jget legacy_with_section [''sections'', ''a'']) ''name'' = Inr (JStr ''A'')
   \<and> \<not> isl (migrate_to_multisection (demo_world legacy_with_section))
   \<and> posted_names (run_requests (demo_world legacy_with_section)
        (snd (projr (migrate_to_multisection (demo_world legacy_with_section))))) = [JStr ''A'']
   \<and> py_index (jget (root (snd (projr (migrate_to_multisection (demo_world legacy_with_section)))))
        [''sections'', ''a'']) ''name'' = Inr (JStr ''A'')
   \<and> py_index (jget (root (snd (projr (migrate_to_multisection (demo_world legacy_with_section)))))
        [''sections'', ''-K0'']) ''name'' = Inr (JStr ''A'')"
  by code_simp

section \<open>When the operations return\<close>

lemma make_request_ok:
  assumes "all_ok w"
  shows "\<exists>r w'. make_request m p d w = Inr (r, w') \<and> all_ok w'
           \<and> (r, w') = serve m p d (log_request m p d w)"
proof -
  from all_ok_step(1)[OF assms] all_ok_step(2)[OF assms, of m p d]
  have "transport w (length (requests w)) = Ok" "all_ok (snd (serve m p d (log_request m p d w)))"
    by blast+
  then show ?thesis
    by (simp add: make_request_def) (metis prod.collapse)
qed

lemma all_ok_tick [simp]:
  "all_ok (snd (now_isoformat w)) = all_ok w" "all_ok (snd (now_strftime w)) = all_ok w"
  by (simp_all add: all_ok_def now_isoformat_def now_strftime_def)

lemma all_ok_files [simp]: "all_ok (w\<lparr>files := f\<rparr>) = all_ok w"
  by (simp add: all_ok_def)

lemma or_empty_dict: "\<not> truthy j \<or> is_dict j \<Longrightarrow> \<exists>kvs. or_empty j = JObj kvs"
  by (cases j) (auto simp: or_empty_def)

text \<open>
  With the network up, adding a member returns whenever the section is absent or a
  dict whose membership list is absent or a list.
\<close>

lemma add_member_returns:
  assumes "all_ok w" "section_list f (root w) s = JList xs"
    and "\<not> truthy (jget (root w) [''sections'', s]) \<or> is_dict (jget (root w) [''sections'', s])"
  shows "\<exists>w'. add_member f m s w = Inr w' \<and> all_ok w'"
proof -
  let ?p = "[''sections'', s]"
  from make_request_ok[OF assms(1), of GET ?p JNull] obtain r w1 where
    g: "make_request GET ?p JNull w = Inr (r, w1)" and ok1: "all_ok w1"
    and s: "(r, w1) = serve GET ?p JNull (log_request GET ?p JNull w)" by blast
  from s have r: "r = jget (root w) ?p" by (simp add: serve_GET)
  from or_empty_dict[OF assms(3)] r obtain kvs where kvs: "or_empty r = JObj kvs"
    by auto
  with assms(2) r have mem: "py_get (or_empty r) f (JList []) = Inr (JList xs)"
    by (auto simp: section_list_def split: option.splits)
  show ?thesis
  proof (cases "JStr m \<in> set xs")
    case True
    with g mem ok1 show ?thesis by (simp add: add_member_def and_then_def)
  next
    case False
    from make_request_ok[OF ok1, of PUT "[''sections'', s, f]" "JList (xs @ [JStr m])"]
    obtain r2 w2 where "make_request PUT [''sections'', s, f] (JList (xs @ [JStr m])) w1 = Inr (r2, w2)"
      "all_ok w2" by blast
    with False g mem show ?thesis by (simp add: add_member_def and_then_def)
  qed
qed

text \<open>
  With the network up, the migration loop returns whenever every record is a dict
  whose old section value can be put in a set; so does the creation of the sections.
\<close>

lemma migrate_student_returns:
  assumes "all_ok w" "\<not> has_sections_list d \<longrightarrow> hashable (old_section_of d)"
  shows "\<exists>S' n' w'. migrate_student k (JObj d) (S, n, w) = Inr (S', n', w') \<and> all_ok w'"
proof (cases "has_sections_list d")
  case True
  with assms(1) show ?thesis
    by (simp add: migrate_student_def already_migrated_dict and_then_def)
next
  case False
  let ?rec = "JObj (migrated_record d (isoformat w (tick w)))"
  have ok1: "all_ok (snd (now_isoformat w))" using assms(1) by simp
  from make_request_ok[OF ok1, of PUT "[''students'', k]" ?rec] obtain r w2 where
    "make_request PUT [''students'', k] ?rec (snd (now_isoformat w)) = Inr (r, w2)" "all_ok w2"
    by blast
  with False assms(2) show ?thesis
    by (simp add: migrate_student_def already_migrated_dict and_then_def migrated_record_def
        old_section_of_def now_isoformat_def Let_def)
qed

lemma migrate_students_returns:
  "all_ok w \<Longrightarrow>
   \<forall>(k, v) \<in> set items. \<exists>d. v = JObj d \<and> (\<not> has_sections_list d \<longrightarrow> hashable (old_section_of d)) \<Longrightarrow>
   \<exists>S' n' w'. migrate_students items (S, n, w) = Inr (S', n', w') \<and> all_ok w'"
proof (induction items arbitrary: S n w)
  case Nil
  then show ?case by simp
next
  case (Cons kv items)
  obtain k v where kv: "kv = (k, v)" by (cases kv)
  with Cons.prems(2) obtain d where d: "v = JObj d"
    "\<not> has_sections_list d \<longrightarrow> hashable (old_section_of d)" by auto
  from migrate_student_returns[OF Cons.prems(1) d(2), of k S n] obtain S1 n1 w1 where
    1: "migrate_student k (JObj d) (S, n, w) = Inr (S1, n1, w1)" and ok1: "all_ok w1" by blast
  from Cons.prems(2) have "\<forall>(k, v) \<in> set items.
      \<exists>d. v = JObj d \<and> (\<not> has_sections_list d \<longrightarrow> hashable (old_section_of d))" by simp
  from Cons.IH[OF ok1 this, of S1 n1] 1 kv d(1) show ?case by (simp add: and_then_def)
qed

lemma create_section_returns:
  assumes "all_ok w"
  shows "\<exists>sid w'. create_section nm w = Inr (sid, w') \<and> all_ok w'"
proof -
  let ?w2 = "snd (now_isoformat (snd (now_isoformat w)))"
  have ok2: "all_ok ?w2" using assms by simp
  let ?data = "JObj
            [(''name'', nm),
             (''teachers'', JList []),
             (''students'', JList []),
             (''createdAt'', JStr (fst (now_isoformat w))),
             (''updatedAt'', JStr (fst (now_isoformat (snd (now_isoformat w)))))]"
  from make_request_ok[OF ok2, of POST "[''sections'']" ?data] obtain r w3 where
    p: "make_request POST [''sections''] ?data ?w2 = Inr (r, w3)" and ok3: "all_ok w3"
    and s: "(r, w3) = serve POST [''sections''] ?data (log_request POST [''sections''] ?data ?w2)"
    by blast
  from s have "\<exists>key. r = JObj [(''name'', key)]" by (simp add: serve_POST)
  with p ok3 show ?thesis
    by (auto simp: create_section_def and_then_def Let_def case_prod_beta)
qed

lemma create_sections_returns:
  "all_ok w \<Longrightarrow> \<exists>w'. create_sections names w = Inr w' \<and> all_ok w'"
proof (induction names arbitrary: w)
  case Nil
  then show ?case by simp
next
  case (Cons nm names)
  show ?case
  proof (cases "truthy nm \<and> nm \<noteq> JStr ''default''")
    case False
    with Cons.IH[OF Cons.prems] show ?thesis by auto
  next
    case True
    from create_section_returns[OF Cons.prems, of nm] obtain sid w1 where
      1: "create_section nm w = Inr (sid, w1)" and ok1: "all_ok w1" by blast
    from Cons.IH[OF ok1] 1 True show ?thesis by (simp add: and_then_def)
  qed
qed

lemma student_items_len:
  "student_items j = Inr items \<Longrightarrow> \<exists>n. py_len j = Inr n"
  by (cases j) auto

text \<open>
  So a migration over a working network returns, with \<open>True\<close>, whenever the students
  are a dict or a list of dicts whose \<open>section\<close> values are scalars.
\<close>

lemma migrate_returns:
  assumes "all_ok w"
    and "student_items (or_empty (jget (root w) [''students''])) = Inr items"
    and "\<forall>(k, v) \<in> set items. \<exists>d. v = JObj d \<and> (\<not> has_sections_list d \<longrightarrow> hashable (old_section_of d))"
  shows "\<exists>w'. migrate_to_multisection w = Inr (True, w')"
proof -
  let ?w1 = "snd (now_strftime w)"
  let ?f = "''pre_migration_backup_'' @ fst (now_strftime w) @ ''.json''"
  have ok1: "all_ok ?w1" using assms(1) by simp
  from make_request_ok[OF ok1, of GET "[]" JNull] obtain r0 w1' where
    g0: "make_request GET [] JNull ?w1 = Inr (r0, w1')" and ok1': "all_ok w1'"
    and s0: "(r0, w1') = serve GET [] JNull (log_request GET [] JNull ?w1)" by blast
  let ?w2 = "w1'\<lparr>files := AList.update ?f r0 (files w1')\<rparr>"
  have bk: "backup_database (Some ?f) ?w1 = Inr (?f, ?w2)"
    using g0 by (simp add: backup_database_def and_then_def)
  have ok2: "all_ok ?w2" using ok1' by simp
  from s0 have rt2: "root ?w2 = root w" by (simp add: serve_GET now_strftime_def)
  from make_request_ok[OF ok2, of GET "[''students'']" JNull] obtain r w3 where
    g: "make_request GET [''students''] JNull ?w2 = Inr (r, w3)" and ok3: "all_ok w3"
    and s: "(r, w3) = serve GET [''students''] JNull (log_request GET [''students''] JNull ?w2)"
    by blast
  from s rt2 have r: "r = jget (root w) [''students'']" by (simp add: serve_GET)
  with assms(2) have it: "student_items (or_empty r) = Inr items" by simp
  from student_items_len[OF it] obtain n where len: "py_len (or_empty r) = Inr n" by blast
  from migrate_students_returns[OF ok3 assms(3), of "[]" 0] obtain S n' w4 where
    lp: "migrate_students items ([], 0, w3) = Inr (S, n', w4)" and ok4: "all_ok w4" by blast
  from create_sections_returns[OF ok4, of S] obtain w5 where
    cs: "create_sections S w4 = Inr w5" by blast
  have "migrate_to_multisection w = Inr (True, w5)"
    using bk g it len lp cs
    by (simp add: migrate_to_multisection_def and_then_def Let_def case_prod_beta del: jget.simps)
  then show ?thesis by blast
qed

section \<open>Section index maintenance appends once\<close>

lemma section_list_dict:
  "section_list f rt s = JList xs \<Longrightarrow>
   \<not> truthy (jget rt [''sections'', s]) \<or> is_dict (jget rt [''sections'', s])"
  by (cases "jget rt [''sections'', s]")
     (auto simp: section_list_def or_empty_def simp del: jget.simps split: if_splits)

text \<open>
  With the network up and a membership list that is a list (or absent), adding a member
  returns: without a write when the id is in the list, with the list extended by the id
  and written back when it is not.
\<close>

lemma add_member_total:
  assumes ok: "all_ok w" and xs: "section_list f (root w) s = JList xs"
  shows "\<exists>w'. add_member f m s w = Inr w' \<and> all_ok w'
           \<and> section_list f (root w') s = JList (if JStr m \<in> set xs then xs else xs @ [JStr m])
           \<and> (JStr m \<in> set xs \<longrightarrow> root w' = root w
                 \<and> requests w' = requests w @ [(GET, [''sections'', s], JNull)])
           \<and> (JStr m \<notin> set xs \<longrightarrow>
                 requests w' = requests w
                   @ [(GET, [''sections'', s], JNull),
                      (PUT, [''sections'', s, f], JList (xs @ [JStr m]))])"
proof -
  from add_member_returns[OF ok xs section_list_dict[OF xs], of m] obtain w' where
    run: "add_member f m s w = Inr w'" and ok': "all_ok w'" by blast
  note res = add_member_result[OF run xs]
  from add_member_cases[OF run] xs
  have req: "JStr m \<in> set xs \<longrightarrow> requests w' = requests w @ [(GET, [''sections'', s], JNull)]"
    by auto
  have put: "requests w' = requests w
                   @ [(GET, [''sections'', s], JNull),
                      (PUT, [''sections'', s, f], JList (xs @ [JStr m]))]"
    if nm: "JStr m \<notin> set xs"
  proof -
    from run obtain r w1 members where
      g: "make_request GET [''sections'', s] JNull w = Inr (r, w1)"
      and mem: "py_get (or_empty r) f (JList []) = Inr members"
      and rest: "and_then (py_in m members) (\<lambda>present.
         if \<not> present then
           and_then (py_append members (JStr m)) (\<lambda>members.
           and_then (make_request PUT [''sections'', s, f] members w1)
             (\<lambda>(r, w2). Inr w2))
         else Inr w1) = Inr w'"
      by (auto simp: add_member_def and_then_Inr split: prod.splits)
    from g have r: "r = jget (root w) [''sections'', s]"
      and w1: "requests w1 = requests w @ [(GET, [''sections'', s], JNull)]"
      by (auto simp: make_request_Inr serve_GET)
    from mem r xs have "members = JList xs" by (simp add: py_get_section_list del: jget.simps)
    with rest nm obtain r2 where
      "make_request PUT [''sections'', s, f] (JList (xs @ [JStr m])) w1 = Inr (r2, w')"
      by (auto simp: and_then_Inr)
    then have "requests w' = requests w1 @ [(PUT, [''sections'', s, f], JList (xs @ [JStr m]))]"
      by (auto simp: make_request_Inr serve_PUT)
    with w1 show ?thesis by simp
  qed
  from run ok' res req put show ?thesis by blast
qed

lemma add_member_twice:
  assumes ok: "all_ok w" and xs: "section_list f (root w) s = JList xs"
  shows "\<exists>w' w''. add_member f m s w = Inr w' \<and> add_member f m s w' = Inr w''
           \<and> root w'' = root w'
           \<and> requests w'' = requests w' @ [(GET, [''sections'', s], JNull)]"
proof -
  from add_member_total[OF ok xs, of m] obtain w' where
    run: "add_member f m s w = Inr w'" and ok': "all_ok w'"
    and xs': "section_list f (root w') s = JList (if JStr m \<in> set xs then xs else xs @ [JStr m])"
    by blast
  have "JStr m \<in> set (if JStr m \<in> set xs then xs else xs @ [JStr m])" by simp
  with add_member_total[OF ok' xs', of m] obtain w'' where
    "add_member f m s w' = Inr w''" "root w'' = root w'"
    "requests w'' = requests w' @ [(GET, [''sections'', s], JNull)]" by blast
  with run show ?thesis by blast
qed

lemma add_member_appends:
  assumes ok: "all_ok w" and xs: "section_list f (root w) s = JList xs"
  shows "\<exists>w'. add_member f m s w = Inr w'
           \<and> section_list f (root w') s = JList (if JStr m \<in> set xs then xs else xs @ [JStr m])
           \<and> (JStr m \<in> set xs \<longrightarrow> root w' = root w
                 \<and> requests w' = requests w @ [(GET, [''sections'', s], JNull)])
           \<and> (JStr m \<notin> set xs \<longrightarrow>
                 requests w' = requests w
                   @ [(GET, [''sections'', s], JNull),
                      (PUT, [''sections'', s, f], JList (xs @ [JStr m]))])
           \<and> (\<exists>w''. add_member f m s w' = Inr w'' \<and> root w'' = root w'
                 \<and> requests w'' = requests w' @ [(GET, [''sections'', s], JNull)])"
proof -
  from add_member_total[OF ok xs, of m] obtain w' where
    1: "add_member f m s w = Inr w'"
    "section_list f (root w') s = JList (if JStr m \<in> set xs then xs else xs @ [JStr m])"
    "JStr m \<in> set xs \<longrightarrow> root w' = root w
                 \<and> requests w' = requests w @ [(GET, [''sections'', s], JNull)]"
    "JStr m \<notin> set xs \<longrightarrow>
                 requests w' = requests w
                   @ [(GET, [''sections'', s], JNull),
                      (PUT, [''sections'', s, f], JList (xs @ [JStr m]))]"
    by blast
  from add_member_twice[OF ok xs, of m] 1(1) obtain w'' where
    "add_member f m s w' = Inr w''" "root w'' = root w'"
    "requests w'' = requests w' @ [(GET, [''sections'', s], JNull)]" by auto
  with 1 show ?thesis by blast
qed

text \<open>
  Claim C5. Adding a student (or a teacher) to a section reads the section's
  membership list, an absent section counting as one with an empty list, appends the
  id only when it is not in the list yet, and writes the list back. Over a working
  network the call returns: with the id appended and the list written when the id was
  not a member, with no write and the store as it was when it was. A second call
  returns with the store unchanged and no write, so there is never a duplicate. And
  whenever a call returns at all, the list read afterwards is the old list, extended by
  the id if it was missing.
\<close>

theorem add_to_section_idempotent:
  "(all_ok w \<and> section_list ''students'' (root w) s = JList xs \<longrightarrow>
      (\<exists>w'. add_student_to_section m s w = Inr w'
         \<and> section_list ''students'' (root w') s
             = JList (if JStr m \<in> set xs then xs else xs @ [JStr m])
         \<and> (JStr m \<in> set xs \<longrightarrow> root w' = root w
               \<and> requests w' = requests w @ [(GET, [''sections'', s], JNull)])
         \<and> (JStr m \<notin> set xs \<longrightarrow>
               requests w' = requests w
                 @ [(GET, [''sections'', s], JNull),
                    (PUT, [''sections'', s, ''students''], JList (xs @ [JStr m]))])
         \<and> (\<exists>w''. add_student_to_section m s w' = Inr w'' \<and> root w'' = root w'
               \<and> requests w'' = requests w' @ [(GET, [''sections'', s], JNull)])))
   \<and> (all_ok w \<and> section_list ''teachers'' (root w) s = JList xs \<longrightarrow>
      (\<exists>w'. add_teacher_to_section m s w = Inr w'
         \<and> section_list ''teachers'' (root w') s
             = JList (if JStr m \<in> set xs then xs else xs @ [JStr m])
         \<and> (JStr m \<in> set xs \<longrightarrow> root w' = root w
               \<and> requests w' = requests w @ [(GET, [''sections'', s], JNull)])
         \<and> (JStr m \<notin> set xs \<longrightarrow>
               requests w' = requests w
                 @ [(GET, [''sections'', s], JNull),
                    (PUT, [''sections'', s, ''teachers''], JList (xs @ [JStr m]))])
         \<and> (\<exists>w''. add_teacher_to_section m s w' = Inr w'' \<and> root w'' = root w'
               \<and> requests w'' = requests w' @ [(GET, [''sections'', s], JNull)])))
   \<and> (jget (root w) [''sections'', s] = JNull \<longrightarrow>
        section_list ''students'' (root w) s = JList []
        \<and> section_list ''teachers'' (root w) s = JList [])
   \<and> (add_student_to_section m s w = Inr v \<longrightarrow>
      (\<forall>ys. section_list ''students'' (root w) s = JList ys \<longrightarrow>
         section_list ''students'' (root v) s
           = JList (if JStr m \<in> set ys then ys else ys @ [JStr m])
         \<and> (JStr m \<in> set ys \<longrightarrow> root v = root w))
      \<and> (\<forall>v'. add_student_to_section m s v = Inr v' \<longrightarrow> root v' = root v))
   \<and> (add_teacher_to_section m s w = Inr v \<longrightarrow>
      (\<forall>ys. section_list ''teachers'' (root w) s = JList ys \<longrightarrow>
         section_list ''teachers'' (root v) s
           = JList (if JStr m \<in> set ys then ys else ys @ [JStr m])
         \<and> (JStr m \<in> set ys \<longrightarrow> root v = root w))
      \<and> (\<forall>v'. add_teacher_to_section m s v = Inr v' \<longrightarrow> root v' = root v))"
proof -
  have total: "all_ok w \<and> section_list f (root w) s = JList xs \<longrightarrow>
      (\<exists>w'. add_member f m s w = Inr w'
         \<and> section_list f (root w') s = JList (if JStr m \<in> set xs then xs else xs @ [JStr m])
         \<and> (JStr m \<in> set xs \<longrightarrow> root w' = root w
               \<and> requests w' = requests w @ [(GET, [''sections'', s], JNull)])
         \<and> (JStr m \<notin> set xs \<longrightarrow>
               requests w' = requests w
                 @ [(GET, [''sections'', s], JNull),
                    (PUT, [''sections'', s, f], JList (xs @ [JStr m]))])
         \<and> (\<exists>w''. add_member f m s w' = Inr w'' \<and> root w'' = root w'
               \<and> requests w'' = requests w' @ [(GET, [''sections'', s], JNull)]))" for f
    using add_member_appends[of w f s xs m] by blast
  have absent: "jget (root w) [''sections'', s] = JNull \<longrightarrow>
        section_list ''students'' (root w) s = JList []
        \<and> section_list ''teachers'' (root w) s = JList []"
    by (simp add: section_list_absent del: jget.simps)
  have partial: "add_member f m s w = Inr v \<longrightarrow>
      (\<forall>ys. section_list f (root w) s = JList ys \<longrightarrow>
         section_list f (root v) s = JList (if JStr m \<in> set ys then ys else ys @ [JStr m])
         \<and> (JStr m \<in> set ys \<longrightarrow> root v = root w))
      \<and> (\<forall>v'. add_member f m s v = Inr v' \<longrightarrow> root v' = root v)" for f
    using add_member_spec[of f m s w v] by blast
  from total[of "''students''"] total[of "''teachers''"] absent
    partial[of "''students''"] partial[of "''teachers''"]
  show ?thesis
    unfolding add_student_to_section_eq add_teacher_to_section_eq by (intro conjI)
qed

theorem add_to_section_idempotent_witness:
  "all_ok (demo_world section_a)
   \<and> section_list ''students'' (root (demo_world section_a)) ''A'' = JList [JStr ''s1'']
   \<and> \<not> isl (add_student_to_section ''s2'' ''A'' (demo_world section_a))
   \<and> section_list ''students''
        (root (projr (add_student_to_section ''s2'' ''A'' (demo_world section_a)))) ''A''
      = JList [JStr ''s1'', JStr ''s2'']
   \<and> requests (projr (add_student_to_section ''s2'' ''A'' (demo_world section_a)))
      = [(GET, [''sections'', ''A''], JNull),
         (PUT, [''sections'', ''A'', ''students''], JList [JStr ''s1'', JStr ''s2''])]
   \<and> jget (root (demo_world section_a)) [''sections'', ''B''] = JNull
   \<and> \<not> isl (add_teacher_to_section ''t1'' ''B'' (demo_world section_a))
   \<and> section_list ''teachers''
        (root (projr (add_teacher_to_section ''t1'' ''B'' (demo_world section_a)))) ''B''
      = JList [JStr ''t1'']
   \<and> requests (projr (add_teacher_to_section ''t1'' ''B'' (demo_world section_a)))
      = [(GET, [''sections'', ''B''], JNull),
         (PUT, [''sections'', ''B'', ''teachers''], JList [JStr ''t1''])]"
proof -
  let ?w = "demo_world section_a"
  have ok: "all_ok ?w" by (simp add: all_ok_def demo_world_def)
  have r0: "requests ?w = []" by (simp add: demo_world_def)
  have sl: "section_list ''students'' (root ?w) ''A'' = JList [JStr ''s1'']" by code_simp
  have ab: "jget (root ?w) [''sections'', ''B''] = JNull" by code_simp
  note inst = add_to_section_idempotent[where w = ?w]
  from inst[of "''A''" "[JStr ''s1'']" "''s2''"] ok sl obtain w' where
    s: "add_student_to_section ''s2'' ''A'' ?w = Inr w'"
    "section_list ''students'' (root w') ''A''
       = JList (if JStr ''s2'' \<in> set [JStr ''s1''] then [JStr ''s1''] else [JStr ''s1''] @ [JStr ''s2''])"
    "JStr ''s2'' \<notin> set [JStr ''s1''] \<longrightarrow>
       requests w' = requests ?w
         @ [(GET, [''sections'', ''A''], JNull),
            (PUT, [''sections'', ''A'', ''students''], JList ([JStr ''s1''] @ [JStr ''s2'']))]"
    by blast
  from inst[of "''B''"] ab have tl: "section_list ''teachers'' (root ?w) ''B'' = JList []" by blast
  from inst[of "''B''" "[]" "''t1''"] ok tl obtain w'' where
    t: "add_teacher_to_section ''t1'' ''B'' ?w = Inr w''"
    "section_list ''teachers'' (root w'') ''B''
       = JList (if JStr ''t1'' \<in> set [] then [] else [] @ [JStr ''t1''])"
    "JStr ''t1'' \<notin> set [] \<longrightarrow>
       requests w'' = requests ?w
         @ [(GET, [''sections'', ''B''], JNull),
            (PUT, [''sections'', ''B'', ''teachers''], JList ([] @ [JStr ''t1'']))]"
    by blast
  from s r0 have A: "\<not> isl (add_student_to_section ''s2'' ''A'' ?w)"
    "section_list ''students'' (root (projr (add_student_to_section ''s2'' ''A'' ?w))) ''A''
       = JList [JStr ''s1'', JStr ''s2'']"
    "requests (projr (add_student_to_section ''s2'' ''A'' ?w))
       = [(GET, [''sections'', ''A''], JNull),
          (PUT, [''sections'', ''A'', ''students''], JList [JStr ''s1'', JStr ''s2''])]"
    by simp_all
  from t r0 have B: "\<not> isl (add_teacher_to_section ''t1'' ''B'' ?w)"
    "section_list ''teachers'' (root (projr (add_teacher_to_section ''t1'' ''B'' ?w))) ''B''
       = JList [JStr ''t1'']"
    "requests (projr (add_teacher_to_section ''t1'' ''B'' ?w))
       = [(GET, [''sections'', ''B''], JNull),
          (PUT, [''sections'', ''B'', ''teachers''], JList [JStr ''t1''])]"
    by simp_all
  from ok sl A ab B show ?thesis by blast
qed

end
